theory Spec2Isabelle
  imports
    Complex_Main
    "HOL-Library.Multiset"
    "HOL-Library.Sublist"
    "HOL-Library.Char_ord"
    "HOL-Library.List_Lexorder"
begin

section \<open>Incident grouping of HDFS logs: the data model\<close>

text \<open>
  The development follows \<^verbatim>\<open>src/incident_grouper.py\<close>. A parsed log is the dictionary
  written by \<^verbatim>\<open>HDFSLogParser.parse_line\<close>: its eight keys are always present, so it is a
  record, and \<^verbatim>\<open>block_id\<close> is a string or \<^verbatim>\<open>None\<close>. The timestamp is kept as the
  ISO string it is in the source: the grouper sorts on the string and subtracts the
  parsed instants, and the two orders are different things. Strings are compared
  lexicographically, character by character, as Python compares them.
\<close>

record log_record =
  line_number :: int
  timestamp :: string
  thread_id :: string
  level :: string
  component :: string
  message :: string
  block_id :: "string option"
  raw_line :: string

text \<open>
  A naive \<^verbatim>\<open>datetime\<close> is the number of microseconds since 0001-01-01T00:00:00, a
  \<^verbatim>\<open>timedelta\<close> is a number of microseconds; both are exact integers in Python.
\<close>

type_synonym datetime = int
type_synonym timedelta = int

datatype error = ValueError | ZeroDivisionError

text \<open>
  The incident dictionary built by \<^verbatim>\<open>_create_incident\<close>. Its \<^verbatim>\<open>block_id\<close> key is the
  field \<open>inc_block_id\<close> here (the log record already has a field of that name).
  \<open>start_time\<close> and \<open>end_time\<close> hold the instants whose \<^verbatim>\<open>isoformat()\<close> the source
  stores; \<open>duration_seconds\<close> is \<^verbatim>\<open>total_seconds()\<close>, the quotient by \<open>10\<^sup>6\<close>, taken
  exactly; \<open>components\<close> is the set that the source turns into a list of unspecified
  order.
\<close>

record incident =
  incident_id :: int
  inc_block_id :: string
  start_time :: datetime
  end_time :: datetime
  duration_seconds :: real
  num_logs :: int
  severity :: string
  components :: "string set"
  logs :: "log_record list"

section \<open>Python built-ins used by the grouper\<close>

text \<open>
  \<^verbatim>\<open>min\<close> and \<^verbatim>\<open>max\<close> raise \<^verbatim>\<open>ValueError\<close> on an empty sequence; otherwise they scan
  from the left and replace the candidate only by a strictly smaller (larger) item,
  so the first extremal item is returned. \<^verbatim>\<open>max(xs, key=f)\<close> compares the keys.
\<close>

fun py_min :: "int list \<Rightarrow> error + int" where
  "py_min [] = Inl ValueError"
| "py_min (x # xs) = Inr (foldl (\<lambda>best y. if y < best then y else best) x xs)"

fun py_max :: "int list \<Rightarrow> error + int" where
  "py_max [] = Inl ValueError"
| "py_max (x # xs) = Inr (foldl (\<lambda>best y. if y > best then y else best) x xs)"

fun py_max_key :: "('a \<Rightarrow> int) \<Rightarrow> 'a list \<Rightarrow> error + 'a" where
  "py_max_key key [] = Inl ValueError"
| "py_max_key key (x # xs) = Inr (foldl (\<lambda>best y. if key y > key best then y else best) x xs)"

text \<open>True division \<^verbatim>\<open>a / b\<close> raises \<^verbatim>\<open>ZeroDivisionError\<close> when \<open>b = 0\<close>.\<close>

definition py_truediv :: "real \<Rightarrow> real \<Rightarrow> error + real" where
  "py_truediv a b = (if b = 0 then Inl ZeroDivisionError else Inr (a / b))"

text \<open>\<^verbatim>\<open>timedelta(minutes=n)\<close> and \<^verbatim>\<open>timedelta.total_seconds()\<close>.\<close>

definition timedelta_minutes :: "int \<Rightarrow> timedelta" where
  "timedelta_minutes n = n * 60000000"

definition total_seconds :: "timedelta \<Rightarrow> real" where
  "total_seconds d = real_of_int d / 1000000"

text \<open>
  \<^verbatim>\<open>datetime.fromisoformat\<close> belongs to the Python library, not to the repository. Every
  function below takes it as the parameter \<open>fromiso\<close>, a function from strings to
  instants that is \<open>None\<close> where the library raises \<^verbatim>\<open>ValueError\<close>; the general theorems
  hold for every such function. The list comprehension over the timestamps raises at
  the first string that does not parse.
\<close>

definition parse_all :: "(string \<Rightarrow> datetime option) \<Rightarrow> log_record list \<Rightarrow> datetime list option" where
  "parse_all fromiso lgs = those (map (\<lambda>lg. fromiso (timestamp lg)) lgs)"

subsection \<open>An instance of \<open>fromisoformat\<close> for the parser's timestamps\<close>

text \<open>
  The parser writes \<^verbatim>\<open>YYYY-MM-DDTHH:MM:SS\<close>. On strings of the shape
  \<^verbatim>\<open>YYYY-MM-DD*HH:MM:SS\<close>, where \<^verbatim>\<open>*\<close> is any one character (the library accepts any
  separator, \<^verbatim>\<open>isoformat(sep=' ')\<close> writes a blank), \<open>iso_seconds\<close> computes the instant
  as CPython's \<^verbatim>\<open>datetime.py\<close> does (\<^verbatim>\<open>_ymd2ord\<close>), and rejects fields out of range. It is
  used for the concrete examples only.
\<close>

definition digit_of :: "char \<Rightarrow> nat option" where
  "digit_of c = (let n = of_char c :: nat in if 48 \<le> n \<and> n \<le> 57 then Some (n - 48) else None)"

fun number_of :: "string \<Rightarrow> nat option" where
  "number_of [] = None"
| "number_of cs =
     foldl (\<lambda>acc c. case (acc, digit_of c) of (Some a, Some d) \<Rightarrow> Some (10 * a + d) | _ \<Rightarrow> None)
       (Some 0) cs"

definition is_leap :: "nat \<Rightarrow> bool" where
  "is_leap year \<longleftrightarrow> year mod 4 = 0 \<and> (year mod 100 \<noteq> 0 \<or> year mod 400 = 0)"

definition days_before_year :: "nat \<Rightarrow> nat" where
  "days_before_year year = (let y = year - 1 in y * 365 + y div 4 - y div 100 + y div 400)"

definition days_in_month :: "nat \<Rightarrow> nat \<Rightarrow> nat" where
  "days_in_month year month =
     (if month = 2 \<and> is_leap year then 29
      else [0, 31, 28, 31, 30, 31, 30, 31, 31, 30, 31, 30, 31] ! month)"

definition days_before_month :: "nat \<Rightarrow> nat \<Rightarrow> nat" where
  "days_before_month year month =
     [0, 0, 31, 59, 90, 120, 151, 181, 212, 243, 273, 304, 334] ! month
       + (if month > 2 \<and> is_leap year then 1 else 0)"

definition ymd2ord :: "nat \<Rightarrow> nat \<Rightarrow> nat \<Rightarrow> nat" where
  "ymd2ord year month day = days_before_year year + days_before_month year month + day"

definition make_datetime :: "nat \<Rightarrow> nat \<Rightarrow> nat \<Rightarrow> nat \<Rightarrow> nat \<Rightarrow> nat \<Rightarrow> datetime option" where
  "make_datetime year month day hour minute second =
     (if 1 \<le> year \<and> year \<le> 9999 \<and> 1 \<le> month \<and> month \<le> 12
         \<and> 1 \<le> day \<and> day \<le> days_in_month year month
         \<and> hour \<le> 23 \<and> minute \<le> 59 \<and> second \<le> 59
      then Some (int (((ymd2ord year month day - 1) * 86400
                        + hour * 3600 + minute * 60 + second) * 1000000))
      else None)"

definition iso_seconds :: "string \<Rightarrow> datetime option" where
  "iso_seconds s =
     (if length s = 19 \<and> s ! 4 = CHR ''-'' \<and> s ! 7 = CHR ''-''
         \<and> s ! 13 = CHR '':'' \<and> s ! 16 = CHR '':''
      then
        (case (number_of (take 4 s), number_of (take 2 (drop 5 s)), number_of (take 2 (drop 8 s)),
               number_of (take 2 (drop 11 s)), number_of (take 2 (drop 14 s)),
               number_of (take 2 (drop 17 s))) of
           (Some year, Some month, Some day, Some hour, Some minute, Some second) \<Rightarrow>
             make_datetime year month day hour minute second
         | _ \<Rightarrow> None)
      else None)"

section \<open>The aggregator: \<^verbatim>\<open>_create_incident\<close>\<close>

definition level_priority :: "string \<rightharpoonup> int" where
  "level_priority =
     [''FATAL'' \<mapsto> 4, ''ERROR'' \<mapsto> 3, ''WARN'' \<mapsto> 2, ''INFO'' \<mapsto> 1, ''DEBUG'' \<mapsto> 0]"

text \<open>\<^verbatim>\<open>level_priority.get(x, 0)\<close>, the key of the \<^verbatim>\<open>max\<close> over the levels.\<close>

definition priority :: "string \<Rightarrow> int" where
  "priority x = (case level_priority x of Some p \<Rightarrow> p | None \<Rightarrow> 0)"

definition create_incident ::
  "(string \<Rightarrow> datetime option) \<Rightarrow> int \<Rightarrow> string \<Rightarrow> log_record list \<Rightarrow> error + incident" where
  "create_incident fromiso iid bid lgs =
     (case parse_all fromiso lgs of
        None \<Rightarrow> Inl ValueError
      | Some timestamps \<Rightarrow>
          (case py_min timestamps of
             Inl e \<Rightarrow> Inl e
           | Inr start \<Rightarrow>
               (case py_max timestamps of
                  Inl e \<Rightarrow> Inl e
                | Inr fin \<Rightarrow>
                    (case py_max_key priority (map level lgs) of
                       Inl e \<Rightarrow> Inl e
                     | Inr sev \<Rightarrow>
                         Inr \<lparr> incident_id = iid,
                               inc_block_id = bid,
                               start_time = start,
                               end_time = fin,
                               duration_seconds = total_seconds (fin - start),
                               num_logs = int (length lgs),
                               severity = sev,
                               components = set (map component lgs),
                               logs = lgs \<rparr>))))"

section \<open>The partitioner and the clusterer: \<^verbatim>\<open>group_incidents\<close>\<close>

text \<open>\<^verbatim>\<open>log.get('block_id')\<close> is truthy for a non-empty string only.\<close>

definition has_block_id :: "log_record \<Rightarrow> bool" where
  "has_block_id lg = (case block_id lg of None \<Rightarrow> False | Some b \<Rightarrow> b \<noteq> [])"

text \<open>
  \<^verbatim>\<open>blocks\<close> is a \<^verbatim>\<open>defaultdict(list)\<close>: iteration follows the order in which the keys
  were first inserted, so it is an association list. \<^verbatim>\<open>blocks[k].append(log)\<close> extends
  the entry of \<open>k\<close> in place, or adds a new last entry.
\<close>

fun blocks_append :: "string \<Rightarrow> log_record \<Rightarrow> (string \<times> log_record list) list \<Rightarrow> (string \<times> log_record list) list" where
  "blocks_append k lg [] = [(k, [lg])]"
| "blocks_append k lg ((k', ls) # rest) =
     (if k = k' then (k', ls @ [lg]) # rest else (k', ls) # blocks_append k lg rest)"

definition block_key :: "log_record \<Rightarrow> string" where
  "block_key lg = (case block_id lg of Some b \<Rightarrow> b | None \<Rightarrow> [])"

definition make_blocks :: "log_record list \<Rightarrow> (string \<times> log_record list) list" where
  "make_blocks logs_with_blocks =
     foldl (\<lambda>blocks lg. blocks_append (block_key lg) lg blocks) [] logs_with_blocks"

text \<open>
  The variables of the two nested \<^verbatim>\<open>for\<close> statements. \<open>current_start_time\<close> is \<^verbatim>\<open>None\<close> or an
  instant; a \<^verbatim>\<open>datetime\<close> is always truthy, so \<^verbatim>\<open>not current_start_time\<close> tests for
  \<^verbatim>\<open>None\<close>. \<open>incidents\<close> and \<open>next_id\<close> (the source's \<^verbatim>\<open>incident_id\<close>) live across blocks.
\<close>

record loop_state =
  current_incident :: "log_record list"
  current_start_time :: "datetime option"
  incidents :: "incident list"
  next_id :: int

text \<open>
  \<^verbatim>\<open>incidents.append(self._create_incident(incident_id, block_id, current_incident))\<close>
  followed by \<^verbatim>\<open>incident_id += 1\<close>, under the guard \<^verbatim>\<open>if current_incident:\<close>.
\<close>

definition save_current :: "(string \<Rightarrow> datetime option) \<Rightarrow> string \<Rightarrow> loop_state \<Rightarrow> error + loop_state" where
  "save_current fromiso bid s =
     (if current_incident s \<noteq> [] then
        (case create_incident fromiso (next_id s) bid (current_incident s) of
           Inl e \<Rightarrow> Inl e
         | Inr inc \<Rightarrow> Inr (s\<lparr> incidents := incidents s @ [inc], next_id := next_id s + 1 \<rparr>))
      else Inr s)"

text \<open>One iteration of \<^verbatim>\<open>for log in block_logs\<close>.\<close>

definition block_step ::
  "(string \<Rightarrow> datetime option) \<Rightarrow> timedelta \<Rightarrow> string \<Rightarrow> loop_state \<Rightarrow> log_record \<Rightarrow> error + loop_state" where
  "block_step fromiso time_window bid s lg =
     (case fromiso (timestamp lg) of
        None \<Rightarrow> Inl ValueError
      | Some log_time \<Rightarrow>
          (case current_start_time s of
             None \<Rightarrow> Inr (s\<lparr> current_start_time := Some log_time, current_incident := [lg] \<rparr>)
           | Some start \<Rightarrow>
               if log_time - start \<le> time_window
               then Inr (s\<lparr> current_incident := current_incident s @ [lg] \<rparr>)
               else
                 (case save_current fromiso bid s of
                    Inl e \<Rightarrow> Inl e
                  | Inr s' \<Rightarrow>
                      Inr (s'\<lparr> current_start_time := Some log_time, current_incident := [lg] \<rparr>))))"

fun block_loop ::
  "(string \<Rightarrow> datetime option) \<Rightarrow> timedelta \<Rightarrow> string \<Rightarrow> loop_state \<Rightarrow> log_record list \<Rightarrow> error + loop_state" where
  "block_loop fromiso time_window bid s [] = Inr s"
| "block_loop fromiso time_window bid s (lg # rest) =
     (case block_step fromiso time_window bid s lg of
        Inl e \<Rightarrow> Inl e
      | Inr s' \<Rightarrow> block_loop fromiso time_window bid s' rest)"

text \<open>
  The body of \<^verbatim>\<open>for block_id, block_logs in blocks.items()\<close>: the stable sort on the
  timestamp string, the inner loop from a fresh \<open>current_incident\<close>, and the last
  incident.
\<close>

definition process_block ::
  "(string \<Rightarrow> datetime option) \<Rightarrow> timedelta \<Rightarrow> incident list \<times> int \<Rightarrow> string \<times> log_record list
     \<Rightarrow> error + (incident list \<times> int)" where
  "process_block fromiso time_window acc blk =
     (case acc of (incs, iid) \<Rightarrow> case blk of (bid, block_logs) \<Rightarrow>
        (case block_loop fromiso time_window bid
                \<lparr> current_incident = [], current_start_time = None, incidents = incs, next_id = iid \<rparr>
                (sort_key timestamp block_logs) of
           Inl e \<Rightarrow> Inl e
         | Inr s \<Rightarrow>
             (case save_current fromiso bid s of
                Inl e \<Rightarrow> Inl e
              | Inr s' \<Rightarrow> Inr (incidents s', next_id s'))))"

fun blocks_loop ::
  "(string \<Rightarrow> datetime option) \<Rightarrow> timedelta \<Rightarrow> incident list \<times> int \<Rightarrow> (string \<times> log_record list) list
     \<Rightarrow> error + (incident list \<times> int)" where
  "blocks_loop fromiso time_window acc [] = Inr acc"
| "blocks_loop fromiso time_window acc (blk # rest) =
     (case process_block fromiso time_window acc blk of
        Inl e \<Rightarrow> Inl e
      | Inr acc' \<Rightarrow> blocks_loop fromiso time_window acc' rest)"

text \<open>
  \<^verbatim>\<open>group_incidents\<close>. Of the four \<^verbatim>\<open>print\<close> calls only the last can fail: it formats
  \<^verbatim>\<open>len(logs_with_blocks)/len(incidents)\<close> before the \<^verbatim>\<open>return\<close>.
\<close>

definition group_incidents ::
  "(string \<Rightarrow> datetime option) \<Rightarrow> timedelta \<Rightarrow> log_record list \<Rightarrow> error + incident list" where
  "group_incidents fromiso time_window batch =
     (let logs_with_blocks = filter has_block_id batch;
          blocks = make_blocks logs_with_blocks
      in case blocks_loop fromiso time_window ([], 1) blocks of
           Inl e \<Rightarrow> Inl e
         | Inr (incs, iid) \<Rightarrow>
             (case py_truediv (real (length logs_with_blocks)) (real (length incs)) of
                Inl e \<Rightarrow> Inl e
              | Inr avg \<Rightarrow> Inr incs))"

section \<open>The statistics reporter: \<^verbatim>\<open>get_incident_stats\<close>\<close>

text \<open>
  The result is a dictionary from field names to numbers or, for
  \<^verbatim>\<open>severity_distribution\<close>, to a dictionary from labels to counts. \<^verbatim>\<open>sum(xs) / len(xs)\<close>
  is Python's true division, taken exactly here.
\<close>

datatype stat_value = IntV int | FloatV real | DictV "string \<rightharpoonup> int"

definition severity_distribution :: "string list \<Rightarrow> (string \<rightharpoonup> int)" where
  "severity_distribution severities =
     (\<lambda>lvl. if lvl \<in> set severities then Some (int (count_list severities lvl)) else None)"

definition get_incident_stats :: "incident list \<Rightarrow> error + (string \<rightharpoonup> stat_value)" where
  "get_incident_stats incs =
     (if incs = [] then Inr Map.empty
      else
        (let num_logs_per_incident = map num_logs incs;
             durations = map duration_seconds incs;
             severities = map severity incs
         in case py_truediv (real_of_int (sum_list num_logs_per_incident)) (real (length incs)) of
              Inl e \<Rightarrow> Inl e
            | Inr avg_logs \<Rightarrow>
         (case py_min num_logs_per_incident of
              Inl e \<Rightarrow> Inl e
            | Inr min_logs \<Rightarrow>
         (case py_max num_logs_per_incident of
              Inl e \<Rightarrow> Inl e
            | Inr max_logs \<Rightarrow>
         (case py_truediv (sum_list durations) (real (length durations)) of
              Inl e \<Rightarrow> Inl e
            | Inr avg_duration \<Rightarrow>
                Inr [''total_incidents'' \<mapsto> IntV (int (length incs)),
                     ''total_logs'' \<mapsto> IntV (sum_list num_logs_per_incident),
                     ''avg_logs_per_incident'' \<mapsto> FloatV avg_logs,
                     ''min_logs_per_incident'' \<mapsto> IntV min_logs,
                     ''max_logs_per_incident'' \<mapsto> IntV max_logs,
                     ''avg_duration_seconds'' \<mapsto> FloatV avg_duration,
                     ''severity_distribution'' \<mapsto> DictV (severity_distribution severities)])))))"

text \<open>
  The pipeline of \<^verbatim>\<open>main\<close>, without the file input and output: a grouper with the
  window given in minutes, \<^verbatim>\<open>group_incidents\<close>, then \<^verbatim>\<open>get_incident_stats\<close>.
\<close>

definition pipeline ::
  "(string \<Rightarrow> datetime option) \<Rightarrow> int \<Rightarrow> log_record list
     \<Rightarrow> error + (incident list \<times> (string \<rightharpoonup> stat_value))" where
  "pipeline fromiso time_window_minutes batch =
     (case group_incidents fromiso (timedelta_minutes time_window_minutes) batch of
        Inl e \<Rightarrow> Inl e
      | Inr incs \<Rightarrow>
          (case get_incident_stats incs of
             Inl e \<Rightarrow> Inl e
           | Inr stats \<Rightarrow> Inr (incs, stats)))"

section \<open>The clustering rule as the specification words it\<close>

text \<open>
  The instant of a record under a given timestamp parser (0 stands in where the
  string does not parse; the function is used on records that parse).
\<close>

definition instant :: "(string \<Rightarrow> datetime option) \<Rightarrow> log_record \<Rightarrow> datetime" where
  "instant fromiso lg = (case fromiso (timestamp lg) of Some t \<Rightarrow> t | None \<Rightarrow> 0)"

text \<open>
  The rule of the specification, written on its own and not taken from the code: the
  first unassigned record opens an incident and is its anchor; a later record \<open>r\<close>
  joins the current incident if and only if its instant minus the anchor is at most
  the window; otherwise the current incident is closed and \<open>r\<close> opens the next one as
  its anchor. \<open>spec_run tm w anchor cur rs\<close> continues the open incident \<open>cur\<close> over
  the remaining records \<open>rs\<close>.
\<close>

fun spec_run ::
  "(log_record \<Rightarrow> datetime) \<Rightarrow> timedelta \<Rightarrow> datetime \<Rightarrow> log_record list \<Rightarrow> log_record list
     \<Rightarrow> log_record list list" where
  "spec_run tm w anchor cur [] = [cur]"
| "spec_run tm w anchor cur (r # rs) =
     (if tm r - anchor \<le> w then spec_run tm w anchor (cur @ [r]) rs
      else cur # spec_run tm w (tm r) [r] rs)"

fun spec_clusters :: "(log_record \<Rightarrow> datetime) \<Rightarrow> timedelta \<Rightarrow> log_record list \<Rightarrow> log_record list list" where
  "spec_clusters tm w [] = []"
| "spec_clusters tm w (r # rs) = spec_run tm w (tm r) [r] rs"

text \<open>The records of one entity, in incoming order.\<close>

definition entity_records :: "string \<Rightarrow> log_record list \<Rightarrow> log_record list" where
  "entity_records k batch = filter (\<lambda>r. has_block_id r \<and> block_id r = Some k) batch"

text \<open>
  The order of the timestamp strings agrees with the order of the instants, for the
  records of one entity. It does for the strings the parser writes, which all have
  the shape \<^verbatim>\<open>YYYY-MM-DDTHH:MM:SS\<close>.
\<close>

definition order_agrees :: "(string \<Rightarrow> datetime option) \<Rightarrow> log_record list \<Rightarrow> bool" where
  "order_agrees fromiso batch \<longleftrightarrow>
     (\<forall>a\<in>set batch. \<forall>b\<in>set batch.
        has_block_id a \<and> block_id a = block_id b \<and> timestamp a \<le> timestamp b
          \<longrightarrow> instant fromiso a \<le> instant fromiso b)"

section \<open>Example records\<close>

definition example_log :: "string \<Rightarrow> string \<Rightarrow> string \<Rightarrow> string option \<Rightarrow> log_record" where
  "example_log t lvl c b =
     \<lparr> line_number = 1, timestamp = t, thread_id = ''143'', level = lvl, component = c,
       message = ''Receiving block'', block_id = b, raw_line = ''raw'' \<rparr>"

text \<open>
  The batch of the specification's scenario: three records of one block at 00:00:00,
  00:03:00 and 00:06:30, and the two incidents that a window of five minutes gives.
\<close>

definition example_batch :: "log_record list" where
  "example_batch =
     [example_log ''2008-11-09T00:00:00'' ''INFO'' ''dfs.DataNode'' (Some ''blk_A''),
      example_log ''2008-11-09T00:03:00'' ''WARN'' ''dfs.DataNode'' (Some ''blk_A''),
      example_log ''2008-11-09T00:06:30'' ''INFO'' ''dfs.FSNamesystem'' (Some ''blk_A'')]"

definition example_incidents :: "incident list" where
  "example_incidents =
     [\<lparr> incident_id = 1, inc_block_id = ''blk_A'',
         start_time = 63361785600000000, end_time = 63361785780000000,
         duration_seconds = 180, num_logs = 2, severity = ''WARN'',
         components = {''dfs.DataNode''},
         logs = [example_log ''2008-11-09T00:00:00'' ''INFO'' ''dfs.DataNode'' (Some ''blk_A''),
                 example_log ''2008-11-09T00:03:00'' ''WARN'' ''dfs.DataNode'' (Some ''blk_A'')] \<rparr>,
      \<lparr> incident_id = 2, inc_block_id = ''blk_A'',
         start_time = 63361785990000000, end_time = 63361785990000000,
         duration_seconds = 0, num_logs = 1, severity = ''INFO'',
         components = {''dfs.FSNamesystem''},
         logs = [example_log ''2008-11-09T00:06:30'' ''INFO'' ''dfs.FSNamesystem'' (Some ''blk_A'')] \<rparr>]"

text \<open>One record, grouped with a window of minus one minute.\<close>

definition lone_batch :: "log_record list" where
  "lone_batch = [example_log ''2008-11-09T00:00:00'' ''INFO'' ''dfs.DataNode'' (Some ''blk_A'')]"

definition lone_incident :: incident where
  "lone_incident =
     \<lparr> incident_id = 1, inc_block_id = ''blk_A'',
       start_time = 63361785600000000, end_time = 63361785600000000,
       duration_seconds = 0, num_logs = 1, severity = ''INFO'',
       components = {''dfs.DataNode''}, logs = lone_batch \<rparr>"

text \<open>
  Two records of one block whose timestamps are written with different separators:
  the blank sorts before the letter \<^verbatim>\<open>T\<close>, so the later instant comes first.
\<close>

definition mixed_batch :: "log_record list" where
  "mixed_batch =
     [example_log ''2008-11-09T00:00:00'' ''INFO'' ''dfs.DataNode'' (Some ''blk_A''),
      example_log ''2008-11-09 00:06:30'' ''INFO'' ''dfs.DataNode'' (Some ''blk_A'')]"

definition mixed_incident :: incident where
  "mixed_incident =
     \<lparr> incident_id = 1, inc_block_id = ''blk_A'',
       start_time = 63361785600000000, end_time = 63361785990000000,
       duration_seconds = 390, num_logs = 2, severity = ''INFO'',
       components = {''dfs.DataNode''},
       logs = [example_log ''2008-11-09 00:06:30'' ''INFO'' ''dfs.DataNode'' (Some ''blk_A''),
               example_log ''2008-11-09T00:00:00'' ''INFO'' ''dfs.DataNode'' (Some ''blk_A'')] \<rparr>"

text \<open>
  A batch with two blocks, two records of equal timestamp in one of them, a record
  without a block id and a record whose block id is the empty string.
\<close>

definition tied_batch :: "log_record list" where
  "tied_batch =
     [example_log ''2008-11-09T00:00:05'' ''INFO'' ''first'' (Some ''blk_A''),
      example_log ''2008-11-09T00:00:09'' ''INFO'' ''other'' (Some ''blk_B''),
      example_log ''2008-11-09T00:00:01'' ''WARN'' ''early'' (Some ''blk_A''),
      example_log ''2008-11-09T00:00:07'' ''INFO'' ''keyless'' None,
      example_log ''2008-11-09T00:00:05'' ''ERROR'' ''second'' (Some ''blk_A''),
      example_log ''2008-11-09T00:00:03'' ''INFO'' ''emptykey'' (Some '''')]"

definition tied_incidents :: "incident list" where
  "tied_incidents =
     [\<lparr> incident_id = 1, inc_block_id = ''blk_A'',
         start_time = 63361785601000000, end_time = 63361785605000000,
         duration_seconds = 4, num_logs = 3, severity = ''ERROR'',
         components = {''early'', ''first'', ''second''},
         logs = [example_log ''2008-11-09T00:00:01'' ''WARN'' ''early'' (Some ''blk_A''),
                 example_log ''2008-11-09T00:00:05'' ''INFO'' ''first'' (Some ''blk_A''),
                 example_log ''2008-11-09T00:00:05'' ''ERROR'' ''second'' (Some ''blk_A'')] \<rparr>,
      \<lparr> incident_id = 2, inc_block_id = ''blk_B'',
         start_time = 63361785609000000, end_time = 63361785609000000,
         duration_seconds = 0, num_logs = 1, severity = ''INFO'',
         components = {''other''},
         logs = [example_log ''2008-11-09T00:00:09'' ''INFO'' ''other'' (Some ''blk_B'')] \<rparr>]"

text \<open>Clusters handed to the aggregator directly.\<close>

definition unsorted_logs :: "log_record list" where
  "unsorted_logs =
     [example_log ''2008-11-09T00:03:00'' ''INFO'' ''dfs.DataNode'' (Some ''blk_A''),
      example_log ''2008-11-09T00:00:00'' ''ERROR'' ''dfs.FSNamesystem'' (Some ''blk_A''),
      example_log ''2008-11-09T00:03:00'' ''WARN'' ''dfs.DataNode'' (Some ''blk_A'')]"

definition unknown_first_logs :: "log_record list" where
  "unknown_first_logs =
     [example_log ''2008-11-09T00:00:00'' ''TRACE'' ''dfs.DataNode'' (Some ''blk_A''),
      example_log ''2008-11-09T00:03:00'' ''DEBUG'' ''dfs.DataNode'' (Some ''blk_A'')]"

definition unknown_first_incident :: incident where
  "unknown_first_incident =
     \<lparr> incident_id = 1, inc_block_id = ''blk_A'',
       start_time = 63361785600000000, end_time = 63361785780000000,
       duration_seconds = 180, num_logs = 2, severity = ''TRACE'',
       components = {''dfs.DataNode''}, logs = unknown_first_logs \<rparr>"

definition notice_logs :: "log_record list" where
  "notice_logs =
     [example_log ''2008-11-09T00:00:00'' ''NOTICE'' ''dfs.DataNode'' (Some ''blk_A''),
      example_log ''2008-11-09T00:00:00'' ''DEBUG'' ''dfs.DataNode'' (Some ''blk_A''),
      example_log ''2008-11-09T00:03:00'' ''NOTICE'' ''dfs.DataNode'' (Some ''blk_A'')]"

section \<open>Notions used in the proofs\<close>

text \<open>
  The key and the member records of each incident, and the fact that every incident
  of a list is what \<^verbatim>\<open>_create_incident\<close> returns for its own id, key and members,
  the ids counting from 1.
\<close>

definition members :: "incident list \<Rightarrow> (string \<times> log_record list) list" where
  "members incs = map (\<lambda>i. (inc_block_id i, logs i)) incs"

definition built_by :: "(string \<Rightarrow> datetime option) \<Rightarrow> incident list \<Rightarrow> bool" where
  "built_by fromiso incs \<longleftrightarrow>
     (\<forall>n<length incs.
        create_incident fromiso (1 + int n) (inc_block_id (incs ! n)) (logs (incs ! n)) = Inr (incs ! n))"

section \<open>Auxiliary facts\<close>

subsection \<open>The scans of \<^verbatim>\<open>min\<close> and \<^verbatim>\<open>max\<close>, and the aggregator\<close>

lemma those_map_Some:
  "those (map f xs) = Some ys \<longleftrightarrow> (\<forall>x\<in>set xs. f x \<noteq> None) \<and> ys = map (\<lambda>x. case f x of Some y \<Rightarrow> y | None \<Rightarrow> d) xs"
  by (induction xs arbitrary: ys) (auto split: option.splits)

lemma parse_all_Some_iff:
  "parse_all fromiso lgs = Some tss \<longleftrightarrow>
     (\<forall>r\<in>set lgs. fromiso (timestamp r) \<noteq> None) \<and> tss = map (instant fromiso) lgs"
  unfolding parse_all_def instant_def by (rule those_map_Some)

lemma parse_all_None_iff:
  "parse_all fromiso lgs = None \<longleftrightarrow> (\<exists>r\<in>set lgs. fromiso (timestamp r) = None)"
proof (cases "parse_all fromiso lgs")
  case None
  have "\<not> (\<forall>r\<in>set lgs. fromiso (timestamp r) \<noteq> None)"
  proof
    assume "\<forall>r\<in>set lgs. fromiso (timestamp r) \<noteq> None"
    then have "parse_all fromiso lgs = Some (map (instant fromiso) lgs)"
      by (simp add: parse_all_Some_iff)
    with None show False by simp
  qed
  with None show ?thesis by auto
next
  case (Some tss)
  then have "\<forall>r\<in>set lgs. fromiso (timestamp r) \<noteq> None"
    by (simp add: parse_all_Some_iff)
  with Some show ?thesis by auto
qed

lemma foldl_min_scan:
  "foldl (\<lambda>best y. if y < best then y else best) (x::int) xs = Min (set (x # xs))"
proof (induction xs rule: rev_induct)
  case Nil
  show ?case by simp
next
  case (snoc a xs)
  define m where "m = foldl (\<lambda>best y. if y < best then y else best) x xs"
  have S: "set (x # xs @ [a]) = insert a (set (x # xs))" by auto
  have M: "Min (insert a (set (x # xs))) = min a (Min (set (x # xs)))"
    by (rule Min_insert) simp_all
  have "foldl (\<lambda>best y. if y < best then y else best) x (xs @ [a]) = (if a < m then a else m)"
    by (simp add: m_def)
  also have "\<dots> = min a m" by (simp add: min_def)
  also have "m = Min (set (x # xs))" unfolding m_def by (rule snoc)
  finally show ?case unfolding S M .
qed

lemma foldl_max_scan:
  "foldl (\<lambda>best y. if y > best then y else best) (x::int) xs = Max (set (x # xs))"
proof (induction xs rule: rev_induct)
  case Nil
  show ?case by simp
next
  case (snoc a xs)
  define m where "m = foldl (\<lambda>best y. if y > best then y else best) x xs"
  have S: "set (x # xs @ [a]) = insert a (set (x # xs))" by auto
  have M: "Max (insert a (set (x # xs))) = max a (Max (set (x # xs)))"
    by (rule Max_insert) simp_all
  have "foldl (\<lambda>best y. if y > best then y else best) x (xs @ [a]) = (if a > m then a else m)"
    by (simp add: m_def)
  also have "\<dots> = max a m" by (simp add: max_def)
  also have "m = Max (set (x # xs))" unfolding m_def by (rule snoc)
  finally show ?case unfolding S M .
qed

lemma py_min_Inr: "xs \<noteq> [] \<Longrightarrow> py_min xs = Inr (Min (set xs))"
  by (cases xs) (simp_all add: foldl_min_scan del: foldl_Cons)

lemma py_max_Inr: "xs \<noteq> [] \<Longrightarrow> py_max xs = Inr (Max (set xs))"
  by (cases xs) (simp_all add: foldl_max_scan del: foldl_Cons)

lemma max_key_scan_split:
  fixes key :: "'a \<Rightarrow> int"
  defines "f \<equiv> (\<lambda>best y. if key y > key best then y else best)"
  shows "\<exists>ys zs. x # xs = ys @ foldl f x xs # zs
            \<and> (\<forall>y\<in>set ys. key y < key (foldl f x xs))
            \<and> (\<forall>z\<in>set zs. key z \<le> key (foldl f x xs))"
proof (induction xs rule: rev_induct)
  case Nil
  show ?case by (intro exI [of _ "[]"]) simp
next
  case (snoc a xs)
  then obtain ys zs where split: "x # xs = ys @ foldl f x xs # zs"
    and before: "\<forall>y\<in>set ys. key y < key (foldl f x xs)"
    and after: "\<forall>z\<in>set zs. key z \<le> key (foldl f x xs)" by blast
  let ?r = "foldl f x xs"
  show ?case
  proof (cases "key a > key ?r")
    case True
    then have res: "foldl f x (xs @ [a]) = a" by (simp add: f_def)
    have "\<forall>y\<in>set (x # xs). key y < key a"
      using before after True by (subst split) fastforce
    then show ?thesis unfolding res
      by (intro exI [of _ "x # xs"] exI [of _ "[]"]) simp
  next
    case False
    then have res: "foldl f x (xs @ [a]) = ?r" by (simp add: f_def)
    show ?thesis unfolding res using split before after False
      by (intro exI [of _ ys] exI [of _ "zs @ [a]"]) auto
  qed
qed

lemma py_max_key_split:
  assumes "py_max_key key xs = Inr r"
  shows "\<exists>ys zs. xs = ys @ r # zs \<and> (\<forall>y\<in>set ys. key y < key r) \<and> (\<forall>z\<in>set zs. key z \<le> key r)"
proof (cases xs)
  case Nil
  with assms show ?thesis by simp
next
  case (Cons x xs')
  with assms have "r = foldl (\<lambda>best y. if key y > key best then y else best) x xs'" by simp
  then show ?thesis using max_key_scan_split [of x xs' key] Cons by simp
qed

lemma py_max_key_Inr: "xs \<noteq> [] \<Longrightarrow> \<exists>r. py_max_key key xs = Inr r"
  by (cases xs) simp_all

lemma find_first_split:
  "(\<forall>y\<in>set ys. \<not> P y) \<Longrightarrow> P r \<Longrightarrow> List.find P (ys @ r # zs) = Some r"
  by (induction ys) simp_all

lemma split_Max:
  fixes key :: "'a \<Rightarrow> int"
  assumes "\<forall>y\<in>set ys. key y < key r" "\<forall>z\<in>set zs. key z \<le> key r"
  shows "Max (key ` set (ys @ r # zs)) = key r"
  using assms by (intro Max_eqI) (auto intro: less_imp_le)

lemma create_incident_ok:
  assumes "lgs \<noteq> []" and "parse_all fromiso lgs = Some tss"
  shows "\<exists>sev. py_max_key priority (map level lgs) = Inr sev
           \<and> create_incident fromiso iid bid lgs =
               Inr \<lparr> incident_id = iid, inc_block_id = bid,
                     start_time = Min (set tss), end_time = Max (set tss),
                     duration_seconds = total_seconds (Max (set tss) - Min (set tss)),
                     num_logs = int (length lgs), severity = sev,
                     components = set (map component lgs), logs = lgs \<rparr>"
proof -
  from assms have ne: "tss \<noteq> []" by (auto simp: parse_all_Some_iff)
  from assms(1) obtain sev where sev: "py_max_key priority (map level lgs) = Inr sev"
    using py_max_key_Inr [of "map level lgs" priority] by auto
  show ?thesis
    using assms(2) sev py_min_Inr [OF ne] py_max_Inr [OF ne]
    by (simp add: create_incident_def)
qed

lemma create_incident_InrD:
  assumes "create_incident fromiso iid bid lgs = Inr inc"
  shows "lgs \<noteq> [] \<and> parse_all fromiso lgs = Some (map (instant fromiso) lgs)
           \<and> logs inc = lgs \<and> inc_block_id inc = bid \<and> incident_id inc = iid"
proof -
  from assms obtain tss where tss: "parse_all fromiso lgs = Some tss"
    by (cases "parse_all fromiso lgs") (simp_all add: create_incident_def)
  have "lgs \<noteq> []"
  proof
    assume "lgs = []"
    with assms show False by (simp add: create_incident_def parse_all_def)
  qed
  moreover from tss have "tss = map (instant fromiso) lgs" by (simp add: parse_all_Some_iff)
  moreover have "logs inc = lgs \<and> inc_block_id inc = bid \<and> incident_id inc = iid"
    using create_incident_ok [OF \<open>lgs \<noteq> []\<close> tss, of iid bid] assms by auto
  ultimately show ?thesis using tss by simp
qed

lemma priority_nonneg: "0 \<le> priority l"
  by (simp add: priority_def level_priority_def)

lemma priority_unknown:
  "l \<notin> {''FATAL'', ''ERROR'', ''WARN'', ''INFO'', ''DEBUG''} \<Longrightarrow> priority l = 0"
  by (simp add: priority_def level_priority_def)

subsection \<open>The partitioner and the rule of the specification\<close>

lemma blocks_append_keys:
  "map fst (blocks_append k x bl) = (if k \<in> fst ` set bl then map fst bl else map fst bl @ [k])"
  by (induction k x bl rule: blocks_append.induct) auto

lemma blocks_append_distinct:
  "distinct (map fst bl) \<Longrightarrow> distinct (map fst (blocks_append k x bl))"
  by (simp add: blocks_append_keys)

lemma blocks_append_map_of:
  "map_of (blocks_append k x bl) =
     (map_of bl)(k \<mapsto> (case map_of bl k of None \<Rightarrow> [x] | Some ls \<Rightarrow> ls @ [x]))"
  by (induction k x bl rule: blocks_append.induct) (auto simp: fun_eq_iff)

lemma blocks_append_mset:
  "mset (concat (map snd (blocks_append k x bl))) = mset (concat (map snd bl)) + {#x#}"
  by (induction k x bl rule: blocks_append.induct) auto

lemma make_blocks_snoc:
  "make_blocks (xs @ [x]) = blocks_append (block_key x) x (make_blocks xs)"
  by (simp add: make_blocks_def)

lemma make_blocks_Nil: "make_blocks [] = []"
  by (simp add: make_blocks_def)

lemma make_blocks_distinct: "distinct (map fst (make_blocks xs))"
  by (induction xs rule: rev_induct)
     (simp_all add: make_blocks_Nil make_blocks_snoc blocks_append_distinct)

lemma make_blocks_map_of:
  "map_of (make_blocks xs) k =
     (if filter (\<lambda>r. block_key r = k) xs = [] then None
      else Some (filter (\<lambda>r. block_key r = k) xs))"
  by (induction xs rule: rev_induct)
     (auto simp: make_blocks_Nil make_blocks_snoc blocks_append_map_of)

lemma make_blocks_mset: "mset (concat (map snd (make_blocks xs))) = mset xs"
  by (induction xs rule: rev_induct)
     (simp_all add: make_blocks_Nil make_blocks_snoc blocks_append_mset)

lemma entity_records_filter:
  "filter (\<lambda>r. block_key r = k) (filter has_block_id batch) = entity_records k batch"
  unfolding entity_records_def filter_filter
  by (rule filter_cong) (auto simp: has_block_id_def block_key_def split: option.splits)

lemma spec_run_concat: "concat (spec_run tm w a cur rs) = cur @ rs"
  by (induction rs arbitrary: a cur) simp_all

lemma spec_clusters_concat: "concat (spec_clusters tm w xs) = xs"
  by (cases xs) (simp_all add: spec_run_concat)

lemma spec_run_nonempty: "cur \<noteq> [] \<Longrightarrow> [] \<notin> set (spec_run tm w a cur rs)"
  by (induction rs arbitrary: a cur) auto

lemma spec_clusters_nonempty: "[] \<notin> set (spec_clusters tm w xs)"
  by (cases xs) (simp_all add: spec_run_nonempty)

lemma spec_run_window:
  assumes "cur \<noteq> []" and "a = tm (hd cur)" and "\<forall>r\<in>set (tl cur). tm r - a \<le> w"
    and "c \<in> set (spec_run tm w a cur rs)"
  shows "\<forall>r\<in>set (tl c). tm r - tm (hd c) \<le> w"
  using assms
proof (induction rs arbitrary: a cur)
  case Nil
  then show ?case by simp
next
  case (Cons r rs)
  show ?case
  proof (cases "tm r - a \<le> w")
    case True
    with Cons.prems have c: "c \<in> set (spec_run tm w a (cur @ [r]) rs)" by simp
    have "\<forall>x\<in>set (tl (cur @ [r])). tm x - a \<le> w"
      using Cons.prems(1,3) True by (cases cur) auto
    moreover have "a = tm (hd (cur @ [r]))" using Cons.prems(1,2) by (cases cur) auto
    ultimately show ?thesis using Cons.IH [OF _ _ _ c] Cons.prems(1) by simp
  next
    case False
    with Cons.prems have "c = cur \<or> c \<in> set (spec_run tm w (tm r) [r] rs)" by auto
    then show ?thesis
    proof
      assume "c = cur"
      with Cons.prems show ?thesis by simp
    next
      assume "c \<in> set (spec_run tm w (tm r) [r] rs)"
      then show ?thesis using Cons.IH [of "[r]" "tm r"] by simp
    qed
  qed
qed

lemma spec_clusters_window:
  "c \<in> set (spec_clusters tm w xs) \<Longrightarrow> \<forall>r\<in>set (tl c). tm r - tm (hd c) \<le> w"
  by (cases xs) (auto dest: spec_run_window [rotated 3])

lemma concat_segment:
  "c \<in> set cs \<Longrightarrow> \<exists>pre post. concat cs = pre @ c @ post"
proof -
  assume "c \<in> set cs"
  then obtain xs ys where "cs = xs @ c # ys" by (auto simp: in_set_conv_decomp)
  then have "concat cs = concat xs @ c @ concat ys" by simp
  then show ?thesis by blast
qed

subsection \<open>The iterations of the clusterer\<close>

lemma members_append: "members (xs @ ys) = members xs @ members ys"
  by (simp add: members_def)

lemma members_Nil: "members [] = []"
  by (simp add: members_def)

lemma built_by_Nil: "built_by fromiso []"
  by (simp add: built_by_def)

lemma built_by_snoc:
  assumes "built_by fromiso incs"
    and "create_incident fromiso (1 + int (length incs)) k c = Inr inc"
  shows "built_by fromiso (incs @ [inc])"
proof -
  from create_incident_InrD [OF assms(2)] have "logs inc = c" "inc_block_id inc = k" by simp_all
  with assms show ?thesis
    by (auto simp: built_by_def nth_append less_Suc_eq)
qed

lemma parses_parse_all:
  "\<forall>r\<in>set lgs. fromiso (timestamp r) \<noteq> None \<Longrightarrow>
     parse_all fromiso lgs = Some (map (instant fromiso) lgs)"
  by (simp add: parse_all_Some_iff)

lemma save_current_run:
  assumes "current_incident s \<noteq> []"
    and "\<forall>r\<in>set (current_incident s). fromiso (timestamp r) \<noteq> None"
  shows "\<exists>inc. save_current fromiso k s
                  = Inr (s\<lparr> incidents := incidents s @ [inc], next_id := next_id s + 1 \<rparr>)
           \<and> create_incident fromiso (next_id s) k (current_incident s) = Inr inc"
proof -
  from create_incident_ok [OF assms(1) parses_parse_all [OF assms(2)], of "next_id s" k]
  obtain inc where "create_incident fromiso (next_id s) k (current_incident s) = Inr inc"
    by blast
  with assms(1) show ?thesis by (simp add: save_current_def)
qed

lemma block_loop_run:
  assumes "\<forall>r\<in>set rs. fromiso (timestamp r) \<noteq> None"
    and "current_start_time s = Some a"
    and "current_incident s \<noteq> []"
    and "\<forall>r\<in>set (current_incident s). fromiso (timestamp r) \<noteq> None"
    and "built_by fromiso (incidents s)"
    and "next_id s = 1 + int (length (incidents s))"
  shows "\<exists>s'. block_loop fromiso w k s rs = Inr s'
           \<and> current_incident s' \<noteq> []
           \<and> (\<forall>r\<in>set (current_incident s'). fromiso (timestamp r) \<noteq> None)
           \<and> built_by fromiso (incidents s')
           \<and> next_id s' = 1 + int (length (incidents s'))
           \<and> members (incidents s') @ [(k, current_incident s')]
               = members (incidents s)
                   @ map (Pair k) (spec_run (instant fromiso) w a (current_incident s) rs)"
  using assms
proof (induction rs arbitrary: s a)
  case Nil
  then show ?case by simp
next
  case (Cons r rs)
  from Cons.prems(1) obtain t where t: "fromiso (timestamp r) = Some t" by auto
  then have inst: "instant fromiso r = t" by (simp add: instant_def)
  from Cons.prems(1) have rest: "\<forall>r\<in>set rs. fromiso (timestamp r) \<noteq> None" by simp
  show ?case
  proof (cases "t - a \<le> w")
    case True
    let ?s1 = "s\<lparr> current_incident := current_incident s @ [r] \<rparr>"
    have step: "block_step fromiso w k s r = Inr ?s1"
      using t True Cons.prems(2) by (simp add: block_step_def)
    have "\<exists>s'. block_loop fromiso w k ?s1 rs = Inr s'
           \<and> current_incident s' \<noteq> []
           \<and> (\<forall>r\<in>set (current_incident s'). fromiso (timestamp r) \<noteq> None)
           \<and> built_by fromiso (incidents s')
           \<and> next_id s' = 1 + int (length (incidents s'))
           \<and> members (incidents s') @ [(k, current_incident s')]
               = members (incidents ?s1)
                   @ map (Pair k) (spec_run (instant fromiso) w a (current_incident ?s1) rs)"
      using Cons.prems t by (intro Cons.IH [OF rest]) auto
    then show ?thesis using step True inst by simp
  next
    case False
    from save_current_run [OF Cons.prems(3,4), of k] obtain inc
      where sv: "save_current fromiso k s
                   = Inr (s\<lparr> incidents := incidents s @ [inc], next_id := next_id s + 1 \<rparr>)"
        and mk: "create_incident fromiso (next_id s) k (current_incident s) = Inr inc" by blast
    let ?s1 = "s\<lparr> incidents := incidents s @ [inc], next_id := next_id s + 1,
                   current_start_time := Some t, current_incident := [r] \<rparr>"
    have step: "block_step fromiso w k s r = Inr ?s1"
      using t False Cons.prems(2) sv by (simp add: block_step_def)
    from create_incident_InrD [OF mk]
    have inc: "logs inc = current_incident s" "inc_block_id inc = k" by simp_all
    have built: "built_by fromiso (incidents s @ [inc])"
      using built_by_snoc [OF Cons.prems(5)] mk Cons.prems(6) by simp
    have "\<exists>s'. block_loop fromiso w k ?s1 rs = Inr s'
           \<and> current_incident s' \<noteq> []
           \<and> (\<forall>r\<in>set (current_incident s'). fromiso (timestamp r) \<noteq> None)
           \<and> built_by fromiso (incidents s')
           \<and> next_id s' = 1 + int (length (incidents s'))
           \<and> members (incidents s') @ [(k, current_incident s')]
               = members (incidents ?s1)
                   @ map (Pair k) (spec_run (instant fromiso) w t (current_incident ?s1) rs)"
      using Cons.prems t built by (intro Cons.IH [OF rest]) auto
    then show ?thesis using step False inst inc
      by (simp add: members_append) (simp add: members_def)
  qed
qed

lemma block_loop_parses:
  "block_loop fromiso w k s rs = Inr s' \<Longrightarrow> \<forall>r\<in>set rs. fromiso (timestamp r) \<noteq> None"
proof (induction rs arbitrary: s)
  case Nil
  then show ?case by simp
next
  case (Cons r rs)
  from Cons.prems obtain s1 where step: "block_step fromiso w k s r = Inr s1"
    and loop: "block_loop fromiso w k s1 rs = Inr s'"
    by (cases "block_step fromiso w k s r") simp_all
  from step have "fromiso (timestamp r) \<noteq> None"
    by (cases "fromiso (timestamp r)") (simp_all add: block_step_def)
  with Cons.IH [OF loop] show ?case by simp
qed

lemma process_block_run:
  assumes "\<forall>r\<in>set bl. fromiso (timestamp r) \<noteq> None"
    and "built_by fromiso incs"
  shows "\<exists>incs'. process_block fromiso w (incs, 1 + int (length incs)) (k, bl)
                    = Inr (incs', 1 + int (length incs'))
           \<and> built_by fromiso incs'
           \<and> members incs'
               = members incs @ map (Pair k) (spec_clusters (instant fromiso) w (sort_key timestamp bl))"
proof (cases "sort_key timestamp bl")
  case Nil
  then show ?thesis using assms(2)
    by (simp add: process_block_def save_current_def)
next
  case (Cons r rs)
  have all: "\<forall>x\<in>set (r # rs). fromiso (timestamp x) \<noteq> None"
    using assms(1) Cons [symmetric] by simp
  then obtain t where t: "fromiso (timestamp r) = Some t" by auto
  then have inst: "instant fromiso r = t" by (simp add: instant_def)
  let ?s0 = "\<lparr> current_incident = [], current_start_time = None, incidents = incs,
               next_id = 1 + int (length incs) \<rparr>"
  let ?s1 = "\<lparr> current_incident = [r], current_start_time = Some t, incidents = incs,
               next_id = 1 + int (length incs) \<rparr>"
  have step: "block_step fromiso w k ?s0 r = Inr ?s1"
    using t by (simp add: block_step_def)
  from all have rest: "\<forall>x\<in>set rs. fromiso (timestamp x) \<noteq> None" by simp
  have "\<exists>s'. block_loop fromiso w k ?s1 rs = Inr s'
           \<and> current_incident s' \<noteq> []
           \<and> (\<forall>r\<in>set (current_incident s'). fromiso (timestamp r) \<noteq> None)
           \<and> built_by fromiso (incidents s')
           \<and> next_id s' = 1 + int (length (incidents s'))
           \<and> members (incidents s') @ [(k, current_incident s')]
               = members (incidents ?s1)
                   @ map (Pair k) (spec_run (instant fromiso) w t (current_incident ?s1) rs)"
    using t assms(2) by (intro block_loop_run [OF rest]) auto
  then obtain s' where loop: "block_loop fromiso w k ?s1 rs = Inr s'"
    and cur: "current_incident s' \<noteq> []"
    and cur_ok: "\<forall>r\<in>set (current_incident s'). fromiso (timestamp r) \<noteq> None"
    and built: "built_by fromiso (incidents s')"
    and nid: "next_id s' = 1 + int (length (incidents s'))"
    and mem: "members (incidents s') @ [(k, current_incident s')]
               = members incs @ map (Pair k) (spec_run (instant fromiso) w t [r] rs)"
    by auto
  from save_current_run [OF cur cur_ok, of k] obtain inc
    where sv: "save_current fromiso k s'
                 = Inr (s'\<lparr> incidents := incidents s' @ [inc], next_id := next_id s' + 1 \<rparr>)"
      and mk: "create_incident fromiso (next_id s') k (current_incident s') = Inr inc" by blast
  from create_incident_InrD [OF mk]
  have inc: "logs inc = current_incident s'" "inc_block_id inc = k" by simp_all
  have built': "built_by fromiso (incidents s' @ [inc])"
    using built_by_snoc [OF built] mk nid by simp
  have res: "process_block fromiso w (incs, 1 + int (length incs)) (k, bl)
               = Inr (incidents s' @ [inc], 1 + int (length (incidents s' @ [inc])))"
    using Cons step loop sv nid by (simp add: process_block_def)
  have "members (incidents s' @ [inc])
          = members incs @ map (Pair k) (spec_clusters (instant fromiso) w (r # rs))"
    using mem inc inst by (simp add: members_append) (simp add: members_def)
  with res built' Cons show ?thesis by auto
qed

lemma process_block_parses:
  assumes "process_block fromiso w acc (k, bl) = Inr acc'"
  shows "\<forall>r\<in>set bl. fromiso (timestamp r) \<noteq> None"
proof -
  obtain incs iid where acc: "acc = (incs, iid)" by (cases acc)
  from assms obtain s where
    "block_loop fromiso w k
       \<lparr> current_incident = [], current_start_time = None, incidents = incs, next_id = iid \<rparr>
       (sort_key timestamp bl) = Inr s"
    unfolding acc process_block_def by (auto split: sum.splits)
  from block_loop_parses [OF this] show ?thesis by simp
qed

subsection \<open>What \<^verbatim>\<open>group_incidents\<close> returns\<close>

lemma blocks_loop_run:
  assumes "\<forall>kb\<in>set blocks. \<forall>r\<in>set (snd kb). fromiso (timestamp r) \<noteq> None"
    and "built_by fromiso incs"
  shows "\<exists>incs'. blocks_loop fromiso w (incs, 1 + int (length incs)) blocks
                    = Inr (incs', 1 + int (length incs'))
           \<and> built_by fromiso incs'
           \<and> members incs'
               = members incs
                   @ concat (map (\<lambda>kb. map (Pair (fst kb))
                                 (spec_clusters (instant fromiso) w (sort_key timestamp (snd kb))))
                               blocks)"
  using assms
proof (induction blocks arbitrary: incs)
  case Nil
  then show ?case by simp
next
  case (Cons kb blocks)
  obtain k bl where kb: "kb = (k, bl)" by (cases kb)
  from Cons.prems(1) have here: "\<forall>r\<in>set bl. fromiso (timestamp r) \<noteq> None"
    and rest: "\<forall>kb\<in>set blocks. \<forall>r\<in>set (snd kb). fromiso (timestamp r) \<noteq> None"
    by (simp_all add: kb)
  from process_block_run [OF here Cons.prems(2), of w k] obtain incs1
    where pb: "process_block fromiso w (incs, 1 + int (length incs)) (k, bl)
                 = Inr (incs1, 1 + int (length incs1))"
      and built1: "built_by fromiso incs1"
      and mem1: "members incs1
                   = members incs
                       @ map (Pair k) (spec_clusters (instant fromiso) w (sort_key timestamp bl))"
    by blast
  from Cons.IH [OF rest built1] obtain incs'
    where bl: "blocks_loop fromiso w (incs1, 1 + int (length incs1)) blocks
                 = Inr (incs', 1 + int (length incs'))"
      and built': "built_by fromiso incs'"
      and mem': "members incs'
                   = members incs1
                       @ concat (map (\<lambda>kb. map (Pair (fst kb))
                                     (spec_clusters (instant fromiso) w (sort_key timestamp (snd kb))))
                                   blocks)"
    by blast
  have "blocks_loop fromiso w (incs, 1 + int (length incs)) (kb # blocks)
          = Inr (incs', 1 + int (length incs'))"
    using pb bl by (simp add: kb)
  moreover have "members incs'
      = members incs
          @ concat (map (\<lambda>kb. map (Pair (fst kb))
                        (spec_clusters (instant fromiso) w (sort_key timestamp (snd kb))))
                      (kb # blocks))"
    using mem' mem1 by (simp add: kb)
  ultimately show ?case using built' by blast
qed

lemma blocks_loop_parses:
  "blocks_loop fromiso w acc blocks = Inr acc' \<Longrightarrow>
     \<forall>kb\<in>set blocks. \<forall>r\<in>set (snd kb). fromiso (timestamp r) \<noteq> None"
proof (induction blocks arbitrary: acc)
  case Nil
  then show ?case by simp
next
  case (Cons kb blocks)
  obtain k bl where kb: "kb = (k, bl)" by (cases kb)
  from Cons.prems obtain acc1 where pb: "process_block fromiso w acc (k, bl) = Inr acc1"
    and bl: "blocks_loop fromiso w acc1 blocks = Inr acc'"
    by (cases "process_block fromiso w acc (k, bl)") (simp_all add: kb)
  from process_block_parses [OF pb] Cons.IH [OF bl] show ?case by (simp add: kb)
qed

lemma make_blocks_set: "(\<Union>kb\<in>set (make_blocks xs). set (snd kb)) = set xs"
proof -
  have "set_mset (mset (concat (map snd (make_blocks xs)))) = set_mset (mset xs)"
    by (simp only: make_blocks_mset)
  then show ?thesis by simp
qed

lemma group_incidents_run:
  assumes "\<forall>r\<in>set batch. has_block_id r \<longrightarrow> fromiso (timestamp r) \<noteq> None"
  shows "\<exists>incs. blocks_loop fromiso w ([], 1) (make_blocks (filter has_block_id batch))
                   = Inr (incs, 1 + int (length incs))
           \<and> built_by fromiso incs
           \<and> members incs
               = concat (map (\<lambda>kb. map (Pair (fst kb))
                             (spec_clusters (instant fromiso) w (sort_key timestamp (snd kb))))
                           (make_blocks (filter has_block_id batch)))"
proof -
  have "\<forall>kb\<in>set (make_blocks (filter has_block_id batch)).
          \<forall>r\<in>set (snd kb). fromiso (timestamp r) \<noteq> None"
  proof (intro ballI)
    fix kb r
    assume "kb \<in> set (make_blocks (filter has_block_id batch))" "r \<in> set (snd kb)"
    then have "r \<in> (\<Union>kb\<in>set (make_blocks (filter has_block_id batch)). set (snd kb))" by blast
    then have "r \<in> set (filter has_block_id batch)" by (simp only: make_blocks_set)
    with assms show "fromiso (timestamp r) \<noteq> None" by simp
  qed
  from blocks_loop_run [OF this built_by_Nil, of w] show ?thesis
    by (simp add: members_Nil)
qed

lemma group_incidents_parses:
  assumes "group_incidents fromiso w batch = Inr incs"
  shows "\<forall>r\<in>set batch. has_block_id r \<longrightarrow> fromiso (timestamp r) \<noteq> None"
proof (intro ballI impI)
  fix r assume r: "r \<in> set batch" "has_block_id r"
  from assms obtain acc where
    bl: "blocks_loop fromiso w ([], 1) (make_blocks (filter has_block_id batch)) = Inr acc"
    by (auto simp: group_incidents_def Let_def split: sum.splits)
  from r have "r \<in> (\<Union>kb\<in>set (make_blocks (filter has_block_id batch)). set (snd kb))"
    by (simp only: make_blocks_set) simp
  with blocks_loop_parses [OF bl] show "fromiso (timestamp r) \<noteq> None" by blast
qed

lemma group_incidents_InrD:
  assumes "group_incidents fromiso w batch = Inr incs"
  shows "built_by fromiso incs"
    and "members incs
           = concat (map (\<lambda>kb. map (Pair (fst kb))
                         (spec_clusters (instant fromiso) w (sort_key timestamp (snd kb))))
                       (make_blocks (filter has_block_id batch)))"
    and "incs \<noteq> []"
proof -
  from group_incidents_run [OF group_incidents_parses [OF assms], of w] obtain incs'
    where bl: "blocks_loop fromiso w ([], 1) (make_blocks (filter has_block_id batch))
                 = Inr (incs', 1 + int (length incs'))"
      and built: "built_by fromiso incs'"
      and mem: "members incs'
                  = concat (map (\<lambda>kb. map (Pair (fst kb))
                                (spec_clusters (instant fromiso) w (sort_key timestamp (snd kb))))
                              (make_blocks (filter has_block_id batch)))"
    by blast
  from assms bl have eq: "incs' = incs" and ne: "incs' \<noteq> []"
    by (auto simp: group_incidents_def Let_def py_truediv_def split: if_splits)
  from built mem ne show "built_by fromiso incs"
    and "members incs
           = concat (map (\<lambda>kb. map (Pair (fst kb))
                         (spec_clusters (instant fromiso) w (sort_key timestamp (snd kb))))
                       (make_blocks (filter has_block_id batch)))"
    and "incs \<noteq> []"
    unfolding eq by simp_all
qed

lemma filter_key_concat:
  assumes "distinct (map fst bl)"
  shows "map snd (filter (\<lambda>p. fst p = k)
                   (concat (map (\<lambda>kb. map (Pair (fst kb)) (g (snd kb))) bl)))
           = (case map_of bl k of None \<Rightarrow> [] | Some ls \<Rightarrow> g ls)"
  using assms
proof (induction bl)
  case Nil
  show ?case by simp
next
  case (Cons kb bl)
  obtain k' ls where kb: "kb = (k', ls)" by (cases kb)
  show ?case
  proof (cases "k' = k")
    case True
    with Cons.prems have "map_of bl k = None"
      by (simp add: kb map_of_eq_None_iff)
    with Cons show ?thesis using True by (simp add: kb comp_def)
  next
    case False
    with Cons show ?thesis by (simp add: kb comp_def)
  qed
qed

lemma entity_incidents:
  assumes "group_incidents fromiso w batch = Inr incs"
  shows "map logs (filter (\<lambda>i. inc_block_id i = k) incs)
           = spec_clusters (instant fromiso) w (sort_key timestamp (entity_records k batch))"
proof -
  have "map logs (filter (\<lambda>i. inc_block_id i = k) incs)
          = map snd (filter (\<lambda>p. fst p = k) (members incs))"
    by (simp add: members_def filter_map comp_def)
  also have "\<dots> = (case map_of (make_blocks (filter has_block_id batch)) k of
                     None \<Rightarrow> []
                   | Some ls \<Rightarrow> spec_clusters (instant fromiso) w (sort_key timestamp ls))"
    unfolding group_incidents_InrD(2) [OF assms]
    by (rule filter_key_concat) (rule make_blocks_distinct)
  also have "\<dots> = spec_clusters (instant fromiso) w (sort_key timestamp (entity_records k batch))"
    unfolding make_blocks_map_of entity_records_filter
    by (cases "entity_records k batch = []") simp_all
  finally show ?thesis .
qed

lemma incident_cluster:
  assumes "group_incidents fromiso w batch = Inr incs" and "inc \<in> set incs"
  shows "logs inc \<in> set (spec_clusters (instant fromiso) w
                            (sort_key timestamp (entity_records (inc_block_id inc) batch)))"
proof -
  from assms(2) have "logs inc \<in> set (map logs (filter (\<lambda>i. inc_block_id i = inc_block_id inc) incs))"
    by auto
  then show ?thesis unfolding entity_incidents [OF assms(1)] .
qed

lemma incident_built:
  assumes "group_incidents fromiso w batch = Inr incs" and "inc \<in> set incs"
  shows "\<exists>n. create_incident fromiso n (inc_block_id inc) (logs inc) = Inr inc"
proof -
  from assms(2) obtain n where "n < length incs" "incs ! n = inc"
    by (auto simp: in_set_conv_nth)
  with group_incidents_InrD(1) [OF assms(1)] show ?thesis
    by (auto simp: built_by_def)
qed

subsection \<open>The members of one incident\<close>

lemma concat_members_blocks:
  "concat (map snd (concat (map (\<lambda>kb. map (Pair (fst kb)) (g (snd kb))) bl)))
     = concat (map (\<lambda>kb. concat (g (snd kb))) bl)"
  by (induction bl) (simp_all add: comp_def)

lemma mset_concat_sorted_blocks:
  "mset (concat (map (\<lambda>kb. sort_key f (snd kb)) bl)) = mset (concat (map snd bl))"
  by (induction bl) simp_all

lemma group_incidents_members_mset:
  assumes "members incs
             = concat (map (\<lambda>kb. map (Pair (fst kb))
                           (spec_clusters tm w (sort_key timestamp (snd kb))))
                         (make_blocks (filter has_block_id batch)))"
  shows "mset (concat (map logs incs)) = mset (filter has_block_id batch)"
proof -
  have "concat (map logs incs) = concat (map snd (members incs))"
    by (simp add: members_def comp_def)
  also have "\<dots> = concat (map (\<lambda>kb. sort_key timestamp (snd kb))
                             (make_blocks (filter has_block_id batch)))"
    unfolding assms
    using concat_members_blocks [of "\<lambda>ls. spec_clusters tm w (sort_key timestamp ls)"]
    by (simp add: spec_clusters_concat)
  finally show ?thesis
    by (simp only: mset_concat_sorted_blocks make_blocks_mset)
qed

lemma group_incidents_total:
  assumes "\<exists>r\<in>set batch. has_block_id r"
    and "\<forall>r\<in>set batch. has_block_id r \<longrightarrow> fromiso (timestamp r) \<noteq> None"
  shows "\<exists>incs. group_incidents fromiso w batch = Inr incs"
proof -
  from group_incidents_run [OF assms(2), of w] obtain incs
    where bl: "blocks_loop fromiso w ([], 1) (make_blocks (filter has_block_id batch))
                 = Inr (incs, 1 + int (length incs))"
      and mem: "members incs
                  = concat (map (\<lambda>kb. map (Pair (fst kb))
                                (spec_clusters (instant fromiso) w (sort_key timestamp (snd kb))))
                              (make_blocks (filter has_block_id batch)))"
    by blast
  have "mset (concat (map logs incs)) \<noteq> {#}"
    unfolding group_incidents_members_mset [OF mem] using assms(1) by auto
  then have "incs \<noteq> []" by auto
  with bl show ?thesis
    by (simp add: group_incidents_def py_truediv_def)
qed

lemma group_incidents_no_keys:
  assumes "\<forall>r\<in>set batch. \<not> has_block_id r"
  shows "group_incidents fromiso w batch = Inl ZeroDivisionError"
proof -
  from assms have "filter has_block_id batch = []" by (simp add: filter_empty_conv)
  then show ?thesis
    by (simp add: group_incidents_def make_blocks_def py_truediv_def)
qed

lemma incident_segment:
  assumes "group_incidents fromiso w batch = Inr incs" and "inc \<in> set incs"
  shows "logs inc \<noteq> []
    \<and> (\<exists>pre post. sort_key timestamp (entity_records (inc_block_id inc) batch)
                      = pre @ logs inc @ post)"
proof -
  let ?srt = "sort_key timestamp (entity_records (inc_block_id inc) batch)"
  from incident_cluster [OF assms]
  have c: "logs inc \<in> set (spec_clusters (instant fromiso) w ?srt)" .
  then have "logs inc \<noteq> []" using spec_clusters_nonempty [of "instant fromiso" w ?srt] by auto
  moreover from concat_segment [OF c] have "\<exists>pre post. ?srt = pre @ logs inc @ post"
    by (simp add: spec_clusters_concat)
  ultimately show ?thesis by simp
qed

lemma incident_members:
  assumes "group_incidents fromiso w batch = Inr incs" and "inc \<in> set incs"
    and "r \<in> set (logs inc)"
  shows "r \<in> set batch" and "has_block_id r" and "block_id r = Some (inc_block_id inc)"
    and "fromiso (timestamp r) = Some (instant fromiso r)"
proof -
  from incident_segment [OF assms(1,2)] obtain pre post
    where "sort_key timestamp (entity_records (inc_block_id inc) batch) = pre @ logs inc @ post"
    by blast
  then have "set (pre @ logs inc @ post) = set (entity_records (inc_block_id inc) batch)"
    by (metis set_sort)
  with assms(3) have "r \<in> set (entity_records (inc_block_id inc) batch)" by auto
  then show r: "r \<in> set batch" and k: "has_block_id r"
    and "block_id r = Some (inc_block_id inc)"
    by (simp_all add: entity_records_def)
  from group_incidents_parses [OF assms(1)] r k
  show "fromiso (timestamp r) = Some (instant fromiso r)"
    by (auto simp: instant_def)
qed

lemma incident_sorted:
  assumes "group_incidents fromiso w batch = Inr incs" and "inc \<in> set incs"
  shows "sorted (map timestamp (logs inc))"
proof -
  from incident_segment [OF assms] obtain pre post
    where seg: "sort_key timestamp (entity_records (inc_block_id inc) batch) = pre @ logs inc @ post"
    by blast
  have "sorted (map timestamp (sort_key timestamp (entity_records (inc_block_id inc) batch)))"
    by (rule sorted_sort_key)
  then show ?thesis unfolding seg by (simp add: sorted_append)
qed

lemma incident_stable:
  assumes "group_incidents fromiso w batch = Inr incs" and "inc \<in> set incs"
  shows "subseq (filter (\<lambda>r. timestamp r = t) (logs inc)) batch"
proof -
  from incident_segment [OF assms] obtain pre post
    where seg: "sort_key timestamp (entity_records (inc_block_id inc) batch) = pre @ logs inc @ post"
    by blast
  let ?P = "\<lambda>r. timestamp r = t"
  have "subseq (filter ?P (logs inc)) (filter ?P pre @ filter ?P (logs inc) @ filter ?P post)"
    by (intro list_emb_append2 list_emb_prefix) simp
  also have "filter ?P pre @ filter ?P (logs inc) @ filter ?P post
               = filter ?P (sort_key timestamp (entity_records (inc_block_id inc) batch))"
    unfolding seg by simp
  also have "\<dots> = filter ?P (entity_records (inc_block_id inc) batch)"
    by (rule sort_key_stable)
  finally have "subseq (filter ?P (logs inc)) (filter ?P (entity_records (inc_block_id inc) batch))" .
  moreover have "subseq (filter ?P (entity_records (inc_block_id inc) batch)) batch"
    unfolding entity_records_def filter_filter by (rule subseq_filter_left)
  ultimately show ?thesis by (rule subseq_order.trans)
qed

lemma sorted_hd_least:
  "sorted (map f xs) \<Longrightarrow> y \<in> set xs \<Longrightarrow> f (hd xs) \<le> f y"
  by (cases xs) auto

lemma incident_instants_sorted:
  assumes "group_incidents fromiso w batch = Inr incs" and "inc \<in> set incs"
    and "order_agrees fromiso batch"
  shows "sorted (map (instant fromiso) (logs inc))"
proof -
  have "sorted_wrt (\<lambda>a b. timestamp a \<le> timestamp b) (logs inc)"
    using incident_sorted [OF assms(1,2)] by (simp add: sorted_map)
  then have "sorted_wrt (\<lambda>a b. instant fromiso a \<le> instant fromiso b) (logs inc)"
  proof (rule sorted_wrt_mono_rel [rotated])
    fix a b
    assume a: "a \<in> set (logs inc)" and b: "b \<in> set (logs inc)"
      and le: "timestamp a \<le> timestamp b"
    from incident_members [OF assms(1,2) a] incident_members [OF assms(1,2) b]
    have "a \<in> set batch" "b \<in> set batch" "has_block_id a" "block_id a = block_id b"
      by simp_all
    with assms(3) le show "instant fromiso a \<le> instant fromiso b"
      unfolding order_agrees_def by blast
  qed
  then show ?thesis by (simp add: sorted_map)
qed

lemma create_incident_start:
  assumes "create_incident fromiso n k lgs = Inr inc"
  shows "start_time inc = Min (instant fromiso ` set lgs)"
proof -
  from create_incident_InrD [OF assms]
  have ne: "lgs \<noteq> []"
    and pa: "parse_all fromiso lgs = Some (map (instant fromiso) lgs)" by simp_all
  from create_incident_ok [OF ne pa, of n k] assms
  show ?thesis by auto
qed

lemma incident_start_time:
  assumes "group_incidents fromiso w batch = Inr incs" and "inc \<in> set incs"
  shows "start_time inc = Min (instant fromiso ` set (logs inc))"
proof -
  from incident_built [OF assms] obtain n
    where "create_incident fromiso n (inc_block_id inc) (logs inc) = Inr inc" by blast
  then show ?thesis by (rule create_incident_start)
qed

subsection \<open>The statistics\<close>

lemma get_incident_stats_nonempty:
  assumes "incs \<noteq> []"
  shows "get_incident_stats incs =
     Inr [''total_incidents'' \<mapsto> IntV (int (length incs)),
          ''total_logs'' \<mapsto> IntV (sum_list (map num_logs incs)),
          ''avg_logs_per_incident'' \<mapsto>
              FloatV (real_of_int (sum_list (map num_logs incs)) / real (length incs)),
          ''min_logs_per_incident'' \<mapsto> IntV (Min (num_logs ` set incs)),
          ''max_logs_per_incident'' \<mapsto> IntV (Max (num_logs ` set incs)),
          ''avg_duration_seconds'' \<mapsto>
              FloatV (sum_list (map duration_seconds incs) / real (length incs)),
          ''severity_distribution'' \<mapsto> DictV (severity_distribution (map severity incs))]"
proof -
  from assms have ne: "map num_logs incs \<noteq> []" by simp
  from assms have len: "real (length incs) \<noteq> 0" by simp
  show ?thesis
    using assms len py_min_Inr [OF ne] py_max_Inr [OF ne]
    by (simp add: get_incident_stats_def py_truediv_def Let_def)
qed

lemma severity_distribution_counts:
  "severity_distribution (map severity incs) lvl =
     (if lvl \<in> severity ` set incs
      then Some (int (length (filter (\<lambda>i. severity i = lvl) incs))) else None)"
proof -
  have "count_list (map severity incs) lvl = length (filter (\<lambda>i. severity i = lvl) incs)"
    by (induction incs) simp_all
  then show ?thesis by (simp add: severity_distribution_def)
qed

subsection \<open>The examples, evaluated\<close>

lemmas iso_defs = iso_seconds_def make_datetime_def ymd2ord_def days_before_year_def
  days_before_month_def days_in_month_def is_leap_def digit_of_def

lemma iso_values:
  "iso_seconds ''2008-11-09T00:00:00'' = Some 63361785600000000"
  "iso_seconds ''2008-11-09T00:03:00'' = Some 63361785780000000"
  "iso_seconds ''2008-11-09T00:06:30'' = Some 63361785990000000"
  "iso_seconds ''2008-11-09 00:06:30'' = Some 63361785990000000"
  "iso_seconds ''2008-11-09T00:00:01'' = Some 63361785601000000"
  "iso_seconds ''2008-11-09T00:00:05'' = Some 63361785605000000"
  "iso_seconds ''2008-11-09T00:00:09'' = Some 63361785609000000"
  by (simp_all add: iso_defs)

lemmas run_defs = group_incidents_def make_blocks_def has_block_id_def block_key_def
  process_block_def block_step_def save_current_def create_incident_def parse_all_def
  priority_def level_priority_def total_seconds_def timedelta_minutes_def py_truediv_def
  example_log_def

lemma example_run:
  "group_incidents iso_seconds (timedelta_minutes 5) example_batch = Inr example_incidents"
  by (simp add: example_batch_def example_incidents_def run_defs iso_values)

lemma lone_run:
  "group_incidents iso_seconds (timedelta_minutes (- 1)) lone_batch = Inr [lone_incident]"
  by (simp add: lone_batch_def lone_incident_def run_defs iso_values)

lemma mixed_run:
  "group_incidents iso_seconds (timedelta_minutes 5) mixed_batch = Inr [mixed_incident]"
  by (simp add: mixed_batch_def mixed_incident_def run_defs iso_values)

lemma tied_run:
  "group_incidents iso_seconds (timedelta_minutes 5) tied_batch = Inr tied_incidents"
  by (simp add: tied_batch_def tied_incidents_def run_defs iso_values insert_commute)

lemma unknown_first_run:
  "create_incident iso_seconds 1 ''blk_A'' unknown_first_logs = Inr unknown_first_incident"
  by (simp add: unknown_first_logs_def unknown_first_incident_def run_defs iso_values)

lemma example_order_agrees: "order_agrees iso_seconds example_batch"
  by (simp add: order_agrees_def example_batch_def example_log_def instant_def iso_values)

lemma unsorted_parse:
  "parse_all iso_seconds unsorted_logs
     = Some [63361785780000000, 63361785600000000, 63361785780000000]"
  by (simp add: unsorted_logs_def parse_all_def example_log_def iso_values)

lemma lone_parse: "parse_all iso_seconds lone_batch = Some [63361785600000000]"
  by (simp add: lone_batch_def parse_all_def example_log_def iso_values)

lemma notice_parse:
  "parse_all iso_seconds notice_logs
     = Some [63361785600000000, 63361785600000000, 63361785780000000]"
  by (simp add: notice_logs_def parse_all_def example_log_def iso_values)

section \<open>Results\<close>

text \<open>
  C1. The clusterer follows the fixed-origin rule. Whenever \<^verbatim>\<open>group_incidents\<close> returns,
  the incidents of an entity \<open>k\<close>, in the order they were produced, have as their member
  lists exactly the clusters that the rule of the specification (\<open>spec_clusters\<close>: the
  first unassigned record is the anchor; a later record joins if and only if its
  instant minus the anchor is at most the window; otherwise it closes the incident
  and anchors the next) cuts out of the entity's records taken in ascending order of
  the timestamp. In particular the three records at 00:00:00, 00:03:00 and 00:06:30
  with a window of five minutes give exactly two incidents, the second starting at
  00:06:30, although both consecutive gaps are within the window.
\<close>

theorem clusterer_fixed_origin:
  assumes "group_incidents fromiso w batch = Inr incs"
  shows "map logs (filter (\<lambda>i. inc_block_id i = k) incs)
           = spec_clusters (instant fromiso) w (sort_key timestamp (entity_records k batch))
     \<and> group_incidents iso_seconds (timedelta_minutes 5) example_batch = Inr example_incidents
     \<and> length example_incidents = 2
     \<and> Some (start_time (example_incidents ! 1)) = iso_seconds ''2008-11-09T00:06:30''
     \<and> instant iso_seconds (example_batch ! 1) - instant iso_seconds (example_batch ! 0)
          \<le> timedelta_minutes 5
     \<and> instant iso_seconds (example_batch ! 2) - instant iso_seconds (example_batch ! 1)
          \<le> timedelta_minutes 5
     \<and> \<not> instant iso_seconds (example_batch ! 2) - instant iso_seconds (example_batch ! 0)
          \<le> timedelta_minutes 5"
proof -
  have "length example_incidents = 2"
    and "Some (start_time (example_incidents ! 1)) = iso_seconds ''2008-11-09T00:06:30''"
    by (simp_all add: example_incidents_def iso_values)
  moreover have
    "instant iso_seconds (example_batch ! 1) - instant iso_seconds (example_batch ! 0)
          \<le> timedelta_minutes 5"
    "instant iso_seconds (example_batch ! 2) - instant iso_seconds (example_batch ! 1)
          \<le> timedelta_minutes 5"
    "\<not> instant iso_seconds (example_batch ! 2) - instant iso_seconds (example_batch ! 0)
          \<le> timedelta_minutes 5"
    by (simp_all add: example_batch_def example_log_def instant_def iso_values
          timedelta_minutes_def)
  ultimately show ?thesis using entity_incidents [OF assms, of k] example_run by simp
qed

text \<open>
  The rule at the scenario: the two clusters are the records at 00:00:00 and 00:03:00,
  and the record at 00:06:30.
\<close>

theorem clusterer_fixed_origin_witness:
  "group_incidents iso_seconds (timedelta_minutes 5) example_batch = Inr example_incidents
   \<and> map logs (filter (\<lambda>i. inc_block_id i = ''blk_A'') example_incidents)
       = spec_clusters (instant iso_seconds) (timedelta_minutes 5)
           (sort_key timestamp (entity_records ''blk_A'' example_batch))
   \<and> map (map timestamp) (map logs (filter (\<lambda>i. inc_block_id i = ''blk_A'') example_incidents))
       = [ [''2008-11-09T00:00:00'', ''2008-11-09T00:03:00''], [''2008-11-09T00:06:30''] ]"
proof -
  have run: "group_incidents iso_seconds (timedelta_minutes 5) example_batch = Inr example_incidents"
    by (rule example_run)
  have "map (map timestamp) (map logs (filter (\<lambda>i. inc_block_id i = ''blk_A'') example_incidents))
       = [ [''2008-11-09T00:00:00'', ''2008-11-09T00:03:00''], [''2008-11-09T00:06:30''] ]"
    by (simp add: example_incidents_def example_log_def)
  with run clusterer_fixed_origin [OF run, of "''blk_A''"] show ?thesis by simp
qed

text \<open>
  C2, amended. In every incident that \<^verbatim>\<open>group_incidents\<close> returns, every member parses,
  every member but the first lies within the window of the anchor, the instant of the
  first member, and \<open>start_time\<close> is the least instant of the members. When the order
  of the timestamp strings agrees with the order of their instants, as it does for the
  strings the parser writes, the anchor is \<open>start_time\<close>, so every member but the first
  satisfies \<open>r.timestamp - start_time \<le> window\<close>, and the first does too when the window
  is not negative.
\<close>

theorem window_conformance_from_anchor:
  assumes "group_incidents fromiso w batch = Inr incs" and "inc \<in> set incs"
  shows "logs inc \<noteq> []
     \<and> (\<forall>r\<in>set (logs inc). fromiso (timestamp r) = Some (instant fromiso r))
     \<and> (\<forall>r\<in>set (tl (logs inc)). instant fromiso r - instant fromiso (hd (logs inc)) \<le> w)
     \<and> start_time inc = Min (instant fromiso ` set (logs inc))
     \<and> (order_agrees fromiso batch \<longrightarrow>
          start_time inc = instant fromiso (hd (logs inc))
          \<and> (\<forall>r\<in>set (tl (logs inc)). instant fromiso r - start_time inc \<le> w)
          \<and> (0 \<le> w \<longrightarrow> (\<forall>r\<in>set (logs inc). instant fromiso r - start_time inc \<le> w)))"
proof -
  from incident_segment [OF assms] have ne: "logs inc \<noteq> []" by simp
  have parses: "\<forall>r\<in>set (logs inc). fromiso (timestamp r) = Some (instant fromiso r)"
    using incident_members(4) [OF assms] by blast
  have anchor: "\<forall>r\<in>set (tl (logs inc)). instant fromiso r - instant fromiso (hd (logs inc)) \<le> w"
    using incident_cluster [OF assms] by (rule spec_clusters_window)
  have start: "start_time inc = Min (instant fromiso ` set (logs inc))"
    by (rule incident_start_time [OF assms])
  have agree: "start_time inc = instant fromiso (hd (logs inc))
          \<and> (\<forall>r\<in>set (tl (logs inc)). instant fromiso r - start_time inc \<le> w)
          \<and> (0 \<le> w \<longrightarrow> (\<forall>r\<in>set (logs inc). instant fromiso r - start_time inc \<le> w))"
    if oa: "order_agrees fromiso batch"
  proof -
    have srt: "sorted (map (instant fromiso) (logs inc))"
      by (rule incident_instants_sorted [OF assms oa])
    have "Min (instant fromiso ` set (logs inc)) = instant fromiso (hd (logs inc))"
    proof (rule Min_eqI)
      show "finite (instant fromiso ` set (logs inc))" by simp
      show "instant fromiso (hd (logs inc)) \<in> instant fromiso ` set (logs inc)"
        using ne by simp
      fix y assume "y \<in> instant fromiso ` set (logs inc)"
      then obtain r where "r \<in> set (logs inc)" "y = instant fromiso r" by blast
      with sorted_hd_least [OF srt] show "instant fromiso (hd (logs inc)) \<le> y" by simp
    qed
    with start have eq: "start_time inc = instant fromiso (hd (logs inc))" by simp
    have rest: "\<forall>r\<in>set (tl (logs inc)). instant fromiso r - start_time inc \<le> w"
      unfolding eq by (rule anchor)
    have "\<forall>r\<in>set (logs inc). instant fromiso r - start_time inc \<le> w" if "0 \<le> w"
    proof
      fix r assume "r \<in> set (logs inc)"
      then have "r = hd (logs inc) \<or> r \<in> set (tl (logs inc))"
        using ne by (cases "logs inc") auto
      then show "instant fromiso r - start_time inc \<le> w"
        using rest eq that by auto
    qed
    with eq rest show ?thesis by blast
  qed
  from ne parses anchor start agree show ?thesis by blast
qed

text \<open>
  The amended statement at the first incident of the scenario.
\<close>

theorem window_conformance_from_anchor_witness:
  "group_incidents iso_seconds (timedelta_minutes 5) example_batch = Inr example_incidents
   \<and> example_incidents ! 0 \<in> set example_incidents
   \<and> order_agrees iso_seconds example_batch
   \<and> example_batch ! 1 \<in> set (tl (logs (example_incidents ! 0)))
   \<and> start_time (example_incidents ! 0) = instant iso_seconds (example_batch ! 0)
   \<and> instant iso_seconds (example_batch ! 1) - start_time (example_incidents ! 0)
        \<le> timedelta_minutes 5"
proof -
  have run: "group_incidents iso_seconds (timedelta_minutes 5) example_batch = Inr example_incidents"
    by (rule example_run)
  have mem: "example_incidents ! 0 \<in> set example_incidents"
    by (simp add: example_incidents_def)
  have r: "example_batch ! 1 \<in> set (tl (logs (example_incidents ! 0)))"
    and h: "hd (logs (example_incidents ! 0)) = example_batch ! 0"
    by (simp_all add: example_incidents_def example_batch_def)
  from window_conformance_from_anchor [OF run mem] example_order_agrees
  have "start_time (example_incidents ! 0) = instant iso_seconds (hd (logs (example_incidents ! 0)))"
    and "\<forall>r\<in>set (tl (logs (example_incidents ! 0))).
           instant iso_seconds r - start_time (example_incidents ! 0) \<le> timedelta_minutes 5"
    by blast+
  with run mem r h example_order_agrees show ?thesis by auto
qed

text \<open>
  The claim as it was stated fails in two ways. With a window of minus one minute the
  single member of an incident is at distance 0 from \<open>start_time\<close>, which is more than
  the window. With a blank and a \<^verbatim>\<open>T\<close> as separators the record of 00:06:30 sorts first
  and becomes the anchor, the record of 00:00:00 joins it, and the member of 00:06:30
  is 390 seconds after \<open>start_time\<close> with a window of 300 seconds.
\<close>

theorem window_conformance_counterexample:
  "group_incidents iso_seconds (timedelta_minutes (- 1)) lone_batch = Inr [lone_incident]
   \<and> logs lone_incident = lone_batch
   \<and> \<not> instant iso_seconds (lone_batch ! 0) - start_time lone_incident \<le> timedelta_minutes (- 1)
   \<and> group_incidents iso_seconds (timedelta_minutes 5) mixed_batch = Inr [mixed_incident]
   \<and> mixed_batch ! 1 \<in> set (logs mixed_incident)
   \<and> \<not> instant iso_seconds (mixed_batch ! 1) - start_time mixed_incident \<le> timedelta_minutes 5"
  using lone_run mixed_run
  by (simp add: lone_incident_def lone_batch_def mixed_incident_def mixed_batch_def
        example_log_def instant_def iso_values timedelta_minutes_def)

text \<open>
  C3. Partition completeness. Whenever \<^verbatim>\<open>group_incidents\<close> returns, the member records
  of all incidents together are, as a multiset, exactly the records of the batch with
  a non-empty block id: each of them is a member once, of one incident. A record
  whose block id is absent or empty is a member of no incident. The call returns for
  every batch that has a record with a block id and whose records with a block id
  carry timestamps that parse; the records without one are filtered and never looked
  at.
\<close>

theorem partition_completeness:
  "(group_incidents fromiso w batch = Inr incs \<longrightarrow>
      mset (concat (map logs incs)) = mset (filter has_block_id batch)
      \<and> (\<forall>r\<in>set batch. \<not> has_block_id r \<longrightarrow> (\<forall>inc\<in>set incs. r \<notin> set (logs inc))))
   \<and> ((\<exists>r\<in>set batch. has_block_id r)
        \<and> (\<forall>r\<in>set batch. has_block_id r \<longrightarrow> fromiso (timestamp r) \<noteq> None)
      \<longrightarrow> (\<exists>incs'. group_incidents fromiso w batch = Inr incs'))"
proof (intro conjI impI)
  assume run: "group_incidents fromiso w batch = Inr incs"
  show "mset (concat (map logs incs)) = mset (filter has_block_id batch)"
    by (rule group_incidents_members_mset [OF group_incidents_InrD(2) [OF run]])
  show "\<forall>r\<in>set batch. \<not> has_block_id r \<longrightarrow> (\<forall>inc\<in>set incs. r \<notin> set (logs inc))"
    using incident_members(2) [OF run] by blast
next
  assume "(\<exists>r\<in>set batch. has_block_id r)
        \<and> (\<forall>r\<in>set batch. has_block_id r \<longrightarrow> fromiso (timestamp r) \<noteq> None)"
  then show "\<exists>incs'. group_incidents fromiso w batch = Inr incs'"
    using group_incidents_total [of batch fromiso w] by blast
qed

text \<open>
  The statement at a batch of six records, two of them without a usable block id.
\<close>

theorem partition_completeness_witness:
  "group_incidents iso_seconds (timedelta_minutes 5) tied_batch = Inr tied_incidents
   \<and> mset (concat (map logs tied_incidents)) = mset (filter has_block_id tied_batch)
   \<and> filter has_block_id tied_batch
       = [tied_batch ! 0, tied_batch ! 1, tied_batch ! 2, tied_batch ! 4]
   \<and> concat (map logs tied_incidents)
       = [tied_batch ! 2, tied_batch ! 0, tied_batch ! 4, tied_batch ! 1]"
proof -
  have run: "group_incidents iso_seconds (timedelta_minutes 5) tied_batch = Inr tied_incidents"
    by (rule tied_run)
  have "filter has_block_id tied_batch
       = [tied_batch ! 0, tied_batch ! 1, tied_batch ! 2, tied_batch ! 4]"
    by (simp add: tied_batch_def has_block_id_def example_log_def)
  moreover have "concat (map logs tied_incidents)
       = [tied_batch ! 2, tied_batch ! 0, tied_batch ! 4, tied_batch ! 1]"
    by (simp add: tied_batch_def tied_incidents_def)
  ultimately show ?thesis
    using run partition_completeness [of iso_seconds "timedelta_minutes 5" tied_batch tied_incidents]
    by blast
qed

text \<open>
  C4, amended. For a non-empty cluster whose timestamps parse the aggregator returns
  an incident, whatever the levels are. Its severity is the level of a member, and the
  priority of that level under FATAL 4, ERROR 3, WARN 2, INFO 1, DEBUG 0 is the
  greatest priority among the members. A level outside the scale has priority 0. Such
  a level is the severity only if it is the level of the first member and every member
  has priority 0: it never displaces a known level of higher priority, nor a level
  that comes before it, but it is reported instead of a DEBUG that comes after it.
\<close>

theorem severity_attains_max_priority:
  assumes "lgs \<noteq> []" and "parse_all fromiso lgs = Some tss"
  shows "\<exists>inc. create_incident fromiso iid bid lgs = Inr inc
           \<and> severity inc \<in> level ` set lgs
           \<and> priority (severity inc) = Max (priority ` level ` set lgs)
           \<and> (\<forall>l. l \<notin> {''FATAL'', ''ERROR'', ''WARN'', ''INFO'', ''DEBUG''} \<longrightarrow> priority l = 0)
           \<and> priority ''FATAL'' = 4 \<and> priority ''ERROR'' = 3 \<and> priority ''WARN'' = 2
           \<and> priority ''INFO'' = 1 \<and> priority ''DEBUG'' = 0
           \<and> (severity inc \<notin> {''FATAL'', ''ERROR'', ''WARN'', ''INFO'', ''DEBUG''} \<longrightarrow>
                severity inc = level (hd lgs) \<and> (\<forall>r\<in>set lgs. priority (level r) = 0))"
proof -
  from create_incident_ok [OF assms, of iid bid] obtain sev inc
    where sev: "py_max_key priority (map level lgs) = Inr sev"
      and inc: "create_incident fromiso iid bid lgs = Inr inc"
      and sev_inc: "severity inc = sev" by auto
  from py_max_key_split [OF sev] obtain ys zs
    where split: "map level lgs = ys @ sev # zs"
      and before: "\<forall>y\<in>set ys. priority y < priority sev"
      and after: "\<forall>z\<in>set zs. priority z \<le> priority sev" by blast
  have set_eq: "level ` set lgs = set (ys @ sev # zs)"
    using split by (metis set_map)
  have mem: "sev \<in> level ` set lgs" unfolding set_eq by simp
  have mx: "Max (priority ` level ` set lgs) = priority sev"
    unfolding set_eq by (rule split_Max [OF before after])
  have unk: "sev = level (hd lgs) \<and> (\<forall>r\<in>set lgs. priority (level r) = 0)"
    if "sev \<notin> {''FATAL'', ''ERROR'', ''WARN'', ''INFO'', ''DEBUG''}"
  proof -
    from that have p0: "priority sev = 0" by (rule priority_unknown)
    have "ys = []"
    proof (cases ys)
      case (Cons y ys')
      with before p0 have "priority y < 0" by simp
      with priority_nonneg [of y] show ?thesis by simp
    qed simp
    with split assms(1) have "sev = level (hd lgs)" by (cases lgs) auto
    moreover have "\<forall>r\<in>set lgs. priority (level r) = 0"
    proof
      fix r assume "r \<in> set lgs"
      then have "level r \<in> set (ys @ sev # zs)" using set_eq by blast
      with before after p0 have "priority (level r) \<le> 0" by auto
      with priority_nonneg [of "level r"] show "priority (level r) = 0" by simp
    qed
    ultimately show ?thesis by simp
  qed
  have unknown: "\<forall>l. l \<notin> {''FATAL'', ''ERROR'', ''WARN'', ''INFO'', ''DEBUG''} \<longrightarrow> priority l = 0"
    using priority_unknown by blast
  have unk': "severity inc \<notin> {''FATAL'', ''ERROR'', ''WARN'', ''INFO'', ''DEBUG''} \<longrightarrow>
                severity inc = level (hd lgs) \<and> (\<forall>r\<in>set lgs. priority (level r) = 0)"
    unfolding sev_inc using unk by (rule impI)
  have mem': "severity inc \<in> level ` set lgs" unfolding sev_inc by (rule mem)
  have mx': "priority (severity inc) = Max (priority ` level ` set lgs)"
    unfolding sev_inc by (rule mx [symmetric])
  have s4: "priority ''FATAL'' = 4" and s3: "priority ''ERROR'' = 3"
    and s2: "priority ''WARN'' = 2" and s1: "priority ''INFO'' = 1" and s0: "priority ''DEBUG'' = 0"
    by (simp_all add: priority_def level_priority_def)
  show ?thesis
    by (intro exI [of _ inc] conjI) (rule inc mem' mx' unknown s4 s3 s2 s1 s0 unk')+
qed

text \<open>
  The amended statement at a cluster with the levels INFO, ERROR, WARN.
\<close>

theorem severity_attains_max_priority_witness:
  "unsorted_logs \<noteq> []
   \<and> parse_all iso_seconds unsorted_logs
       = Some [63361785780000000, 63361785600000000, 63361785780000000]
   \<and> map level unsorted_logs = [''INFO'', ''ERROR'', ''WARN'']
   \<and> (\<exists>inc. create_incident iso_seconds 1 ''blk_A'' unsorted_logs = Inr inc
         \<and> severity inc = ''ERROR'' \<and> priority (severity inc) = 3)"
proof -
  have ne: "unsorted_logs \<noteq> []" by (simp add: unsorted_logs_def)
  have lv: "map level unsorted_logs = [''INFO'', ''ERROR'', ''WARN'']"
    by (simp add: unsorted_logs_def example_log_def)
  have lvs: "level ` set unsorted_logs = {''INFO'', ''ERROR'', ''WARN''}"
    by (simp add: unsorted_logs_def example_log_def)
  have mx: "Max (priority ` {''INFO'', ''ERROR'', ''WARN''}) = 3"
    by (simp add: priority_def level_priority_def)
  from severity_attains_max_priority [OF ne unsorted_parse, of 1 "''blk_A''"] obtain inc
    where run: "create_incident iso_seconds 1 ''blk_A'' unsorted_logs = Inr inc"
      and mem: "severity inc \<in> level ` set unsorted_logs"
      and pr: "priority (severity inc) = Max (priority ` level ` set unsorted_logs)"
    by (elim exE conjE) (rule that; assumption)
  from pr have p3: "priority (severity inc) = 3" unfolding lvs mx .
  from mem have "severity inc = ''INFO'' \<or> severity inc = ''ERROR'' \<or> severity inc = ''WARN''"
    unfolding lvs by simp
  then have sev: "severity inc = ''ERROR''"
  proof (elim disjE)
    assume "severity inc = ''INFO''"
    with p3 show ?thesis by (simp add: priority_def level_priority_def)
  next
    assume "severity inc = ''ERROR''"
    then show ?thesis .
  next
    assume "severity inc = ''WARN''"
    with p3 show ?thesis by (simp add: priority_def level_priority_def)
  qed
  have ex: "\<exists>inc. create_incident iso_seconds 1 ''blk_A'' unsorted_logs = Inr inc
         \<and> severity inc = ''ERROR'' \<and> priority (severity inc) = 3"
    by (intro exI [of _ inc] conjI) (rule run sev p3)+
  show ?thesis
    by (intro conjI) (rule ne unsorted_parse lv ex)+
qed

text \<open>
  The claim as it was stated fails where it says that a level outside the scale never
  overrides a known level of equal priority: for the levels TRACE, DEBUG the severity
  is TRACE, although DEBUG is in the scale and has the same priority 0.
\<close>

theorem unknown_label_reported_over_debug:
  "create_incident iso_seconds 1 ''blk_A'' unknown_first_logs = Inr unknown_first_incident
   \<and> map level unknown_first_logs = [''TRACE'', ''DEBUG'']
   \<and> severity unknown_first_incident = ''TRACE''
   \<and> level_priority ''TRACE'' = None
   \<and> level_priority ''DEBUG'' = Some 0
   \<and> priority ''TRACE'' = priority ''DEBUG''"
proof (intro conjI)
  show "create_incident iso_seconds 1 ''blk_A'' unknown_first_logs = Inr unknown_first_incident"
    by (rule unknown_first_run)
  show "map level unknown_first_logs = [''TRACE'', ''DEBUG'']"
    by (simp add: unknown_first_logs_def example_log_def)
  show "severity unknown_first_incident = ''TRACE''"
    by (simp add: unknown_first_incident_def)
  show "level_priority ''TRACE'' = None" by (simp add: level_priority_def)
  show "level_priority ''DEBUG'' = Some 0" by (simp add: level_priority_def)
  show "priority ''TRACE'' = priority ''DEBUG''" by (simp add: priority_def level_priority_def)
qed

text \<open>
  C5, amended. Given no incidents, the statistics reporter returns the empty
  dictionary and raises nothing; and for every list of incidents it returns a
  dictionary, so none of its divisions is a division by zero. The empty dictionary has
  no entry at all, hence no \<^verbatim>\<open>total_incidents\<close>.
\<close>

theorem stats_of_no_incidents:
  "get_incident_stats [] = Inr Map.empty \<and> (\<forall>incs. \<exists>stats. get_incident_stats incs = Inr stats)"
proof
  show "get_incident_stats [] = Inr Map.empty" by (simp add: get_incident_stats_def)
  show "\<forall>incs. \<exists>stats. get_incident_stats incs = Inr stats"
  proof
    fix incs
    show "\<exists>stats. get_incident_stats incs = Inr stats"
    proof (cases "incs = []")
      case True
      then show ?thesis by (simp add: get_incident_stats_def)
    next
      case False
      then show ?thesis by (simp add: get_incident_stats_nonempty)
    qed
  qed
qed

text \<open>
  The claim as it was stated fails on the empty batch: the pipeline ends in
  \<^verbatim>\<open>ZeroDivisionError\<close>, raised by the summary line of \<^verbatim>\<open>group_incidents\<close>, and the
  report for no incidents is the empty dictionary, in which \<^verbatim>\<open>total_incidents\<close> is
  not 0 but absent.
\<close>

theorem empty_batch_counterexample:
  "pipeline iso_seconds 5 [] = Inl ZeroDivisionError
   \<and> get_incident_stats [] = Inr Map.empty
   \<and> (Map.empty :: string \<rightharpoonup> stat_value) ''total_incidents'' \<noteq> Some (IntV 0)"
  by (simp add: pipeline_def group_incidents_def make_blocks_def py_truediv_def
        get_incident_stats_def)

text \<open>
  C6. In every incident that \<^verbatim>\<open>group_incidents\<close> returns, the member records are in
  non-decreasing order of the \<^verbatim>\<open>timestamp\<close> field (the ISO string, compared as Python
  compares strings), and the members that share a timestamp are in the order in which
  the batch had them. Where the order of the strings agrees with the order of their
  instants, the members are in non-decreasing order of the instants too.
\<close>

theorem incident_logs_sorted_stable:
  assumes "group_incidents fromiso w batch = Inr incs" and "inc \<in> set incs"
  shows "sorted (map timestamp (logs inc))
     \<and> (\<forall>t. subseq (filter (\<lambda>r. timestamp r = t) (logs inc)) batch)
     \<and> (order_agrees fromiso batch \<longrightarrow> sorted (map (instant fromiso) (logs inc)))"
  using incident_sorted [OF assms] incident_stable [OF assms]
    incident_instants_sorted [OF assms] by blast

text \<open>
  The statement at a batch in which two records of one block share a timestamp.
\<close>

theorem incident_logs_sorted_stable_witness:
  "group_incidents iso_seconds (timedelta_minutes 5) tied_batch = Inr tied_incidents
   \<and> tied_incidents ! 0 \<in> set tied_incidents
   \<and> sorted (map timestamp (logs (tied_incidents ! 0)))
   \<and> map timestamp (logs (tied_incidents ! 0))
       = [''2008-11-09T00:00:01'', ''2008-11-09T00:00:05'', ''2008-11-09T00:00:05'']
   \<and> filter (\<lambda>r. timestamp r = ''2008-11-09T00:00:05'') (logs (tied_incidents ! 0))
       = [tied_batch ! 0, tied_batch ! 4]
   \<and> subseq [tied_batch ! 0, tied_batch ! 4] tied_batch"
proof -
  have run: "group_incidents iso_seconds (timedelta_minutes 5) tied_batch = Inr tied_incidents"
    by (rule tied_run)
  have mem: "tied_incidents ! 0 \<in> set tied_incidents" by (simp add: tied_incidents_def)
  have ts: "map timestamp (logs (tied_incidents ! 0))
       = [''2008-11-09T00:00:01'', ''2008-11-09T00:00:05'', ''2008-11-09T00:00:05'']"
    by (simp add: tied_incidents_def example_log_def)
  have flt: "filter (\<lambda>r. timestamp r = ''2008-11-09T00:00:05'') (logs (tied_incidents ! 0))
       = [tied_batch ! 0, tied_batch ! 4]"
    by (simp add: tied_incidents_def tied_batch_def example_log_def)
  from incident_logs_sorted_stable [OF run mem]
  have "sorted (map timestamp (logs (tied_incidents ! 0)))"
    and "subseq (filter (\<lambda>r. timestamp r = ''2008-11-09T00:00:05'') (logs (tied_incidents ! 0)))
           tied_batch"
    by blast+
  with run mem ts flt show ?thesis by simp
qed

text \<open>
  C7. For a non-empty list of incidents the statistics reporter returns a dictionary
  in which \<^verbatim>\<open>total_incidents\<close> is the number of incidents, \<^verbatim>\<open>total_logs\<close> the sum of
  \<^verbatim>\<open>num_logs\<close>, \<^verbatim>\<open>avg_logs_per_incident\<close> that sum divided by the number of incidents,
  \<^verbatim>\<open>min_logs_per_incident\<close> and \<^verbatim>\<open>max_logs_per_incident\<close> the least and the greatest
  \<^verbatim>\<open>num_logs\<close>, \<^verbatim>\<open>avg_duration_seconds\<close> the mean of \<^verbatim>\<open>duration_seconds\<close>, and
  \<^verbatim>\<open>severity_distribution\<close> the dictionary that maps every severity label some
  incident reports to the number of incidents reporting it, and has no other key.
\<close>

theorem stats_consistency:
  assumes "incs \<noteq> []"
  shows "\<exists>stats. get_incident_stats incs = Inr stats
     \<and> stats ''total_incidents'' = Some (IntV (int (length incs)))
     \<and> stats ''total_logs'' = Some (IntV (sum_list (map num_logs incs)))
     \<and> stats ''avg_logs_per_incident''
          = Some (FloatV (real_of_int (sum_list (map num_logs incs)) / real (length incs)))
     \<and> stats ''min_logs_per_incident'' = Some (IntV (Min (num_logs ` set incs)))
     \<and> stats ''max_logs_per_incident'' = Some (IntV (Max (num_logs ` set incs)))
     \<and> stats ''avg_duration_seconds''
          = Some (FloatV (sum_list (map duration_seconds incs) / real (length incs)))
     \<and> (\<exists>dist. stats ''severity_distribution'' = Some (DictV dist)
           \<and> (\<forall>lvl. dist lvl =
                 (if lvl \<in> severity ` set incs
                  then Some (int (length (filter (\<lambda>i. severity i = lvl) incs))) else None)))"
proof -
  define stats where "stats =
     [''total_incidents'' \<mapsto> IntV (int (length incs)),
      ''total_logs'' \<mapsto> IntV (sum_list (map num_logs incs)),
      ''avg_logs_per_incident'' \<mapsto>
          FloatV (real_of_int (sum_list (map num_logs incs)) / real (length incs)),
      ''min_logs_per_incident'' \<mapsto> IntV (Min (num_logs ` set incs)),
      ''max_logs_per_incident'' \<mapsto> IntV (Max (num_logs ` set incs)),
      ''avg_duration_seconds'' \<mapsto>
          FloatV (sum_list (map duration_seconds incs) / real (length incs)),
      ''severity_distribution'' \<mapsto> DictV (severity_distribution (map severity incs))]"
  have run: "get_incident_stats incs = Inr stats"
    unfolding stats_def by (rule get_incident_stats_nonempty [OF assms])
  have f1: "stats ''total_incidents'' = Some (IntV (int (length incs)))"
    by (simp add: stats_def)
  have f2: "stats ''total_logs'' = Some (IntV (sum_list (map num_logs incs)))"
    by (simp add: stats_def)
  have f3: "stats ''avg_logs_per_incident''
          = Some (FloatV (real_of_int (sum_list (map num_logs incs)) / real (length incs)))"
    by (simp add: stats_def)
  have f4: "stats ''min_logs_per_incident'' = Some (IntV (Min (num_logs ` set incs)))"
    by (simp add: stats_def)
  have f5: "stats ''max_logs_per_incident'' = Some (IntV (Max (num_logs ` set incs)))"
    by (simp add: stats_def)
  have f6: "stats ''avg_duration_seconds''
          = Some (FloatV (sum_list (map duration_seconds incs) / real (length incs)))"
    by (simp add: stats_def)
  have f7: "\<exists>dist. stats ''severity_distribution'' = Some (DictV dist)
           \<and> (\<forall>lvl. dist lvl =
                 (if lvl \<in> severity ` set incs
                  then Some (int (length (filter (\<lambda>i. severity i = lvl) incs))) else None))"
    by (rule exI [of _ "severity_distribution (map severity incs)"])
       (simp add: stats_def severity_distribution_counts)
  show ?thesis
    by (intro exI [of _ stats] conjI) (rule run f1 f2 f3 f4 f5 f6 f7)+
qed

text \<open>
  The statement at the two incidents of the scenario.
\<close>

theorem stats_consistency_witness:
  "example_incidents \<noteq> []
   \<and> (\<exists>stats. get_incident_stats example_incidents = Inr stats
        \<and> stats ''total_incidents'' = Some (IntV 2)
        \<and> stats ''total_logs'' = Some (IntV 3)
        \<and> stats ''avg_logs_per_incident'' = Some (FloatV (3 / 2))
        \<and> stats ''min_logs_per_incident'' = Some (IntV 1)
        \<and> stats ''max_logs_per_incident'' = Some (IntV 2)
        \<and> stats ''avg_duration_seconds'' = Some (FloatV 90)
        \<and> (\<exists>dist. stats ''severity_distribution'' = Some (DictV dist)
              \<and> dist ''WARN'' = Some 1 \<and> dist ''INFO'' = Some 1 \<and> dist ''ERROR'' = None))"
proof -
  have ne: "example_incidents \<noteq> []" by (simp add: example_incidents_def)
  from stats_consistency [OF ne] obtain stats dist
    where "get_incident_stats example_incidents = Inr stats"
      and "stats ''total_incidents'' = Some (IntV (int (length example_incidents)))"
      and "stats ''total_logs'' = Some (IntV (sum_list (map num_logs example_incidents)))"
      and "stats ''avg_logs_per_incident''
             = Some (FloatV (real_of_int (sum_list (map num_logs example_incidents))
                              / real (length example_incidents)))"
      and "stats ''min_logs_per_incident'' = Some (IntV (Min (num_logs ` set example_incidents)))"
      and "stats ''max_logs_per_incident'' = Some (IntV (Max (num_logs ` set example_incidents)))"
      and "stats ''avg_duration_seconds''
             = Some (FloatV (sum_list (map duration_seconds example_incidents)
                              / real (length example_incidents)))"
      and "stats ''severity_distribution'' = Some (DictV dist)"
      and "\<forall>lvl. dist lvl =
                 (if lvl \<in> severity ` set example_incidents
                  then Some (int (length (filter (\<lambda>i. severity i = lvl) example_incidents)))
                  else None)"
    by blast
  then show ?thesis using ne
    by (intro conjI exI [of _ stats] exI [of _ dist]) (simp_all add: example_incidents_def)
qed

text \<open>
  C8. For a non-empty cluster whose timestamps parse the aggregator returns an incident
  in which \<open>start_time\<close> and \<open>end_time\<close> are the least and the greatest member
  timestamp, \<open>duration_seconds\<close> is their difference in seconds, is not negative and is
  zero for a single record, \<open>num_logs\<close> is the number of members and at least 1, and
  \<open>components\<close> is the set of the members' components.
\<close>

theorem create_incident_fields:
  assumes "lgs \<noteq> []" and "parse_all fromiso lgs = Some tss"
  shows "\<exists>inc. create_incident fromiso iid bid lgs = Inr inc
           \<and> start_time inc = Min (set tss) \<and> end_time inc = Max (set tss)
           \<and> duration_seconds inc = real_of_int (end_time inc - start_time inc) / 1000000
           \<and> 0 \<le> duration_seconds inc
           \<and> (length lgs = 1 \<longrightarrow> duration_seconds inc = 0)
           \<and> num_logs inc = int (length lgs) \<and> 1 \<le> num_logs inc
           \<and> components inc = component ` set lgs"
proof -
  from assms have len: "length tss = length lgs" and ne: "tss \<noteq> []"
    by (auto simp: parse_all_Some_iff)
  have le: "Min (set tss) \<le> Max (set tss)" using ne by simp
  have one: "length lgs = 1 \<Longrightarrow> Max (set tss) = Min (set tss)"
    using len by (cases tss) auto
  from assms(1) have pos: "1 \<le> int (length lgs)" by (cases lgs) simp_all
  from create_incident_ok [OF assms, of iid bid] show ?thesis
    using le one pos by (auto simp: total_seconds_def)
qed

text \<open>
  The statement at a cluster of three records that is not in order of time, and at a
  cluster of one record.
\<close>

theorem create_incident_fields_witness:
  "unsorted_logs \<noteq> []
   \<and> parse_all iso_seconds unsorted_logs
       = Some [63361785780000000, 63361785600000000, 63361785780000000]
   \<and> (\<exists>inc. create_incident iso_seconds 1 ''blk_A'' unsorted_logs = Inr inc
         \<and> start_time inc = 63361785600000000 \<and> end_time inc = 63361785780000000
         \<and> duration_seconds inc = 180 \<and> num_logs inc = 3
         \<and> components inc = {''dfs.DataNode'', ''dfs.FSNamesystem''})
   \<and> lone_batch \<noteq> []
   \<and> parse_all iso_seconds lone_batch = Some [63361785600000000]
   \<and> (\<exists>inc. create_incident iso_seconds 1 ''blk_A'' lone_batch = Inr inc
         \<and> duration_seconds inc = 0 \<and> num_logs inc = 1)"
proof -
  have ne: "unsorted_logs \<noteq> []" by (simp add: unsorted_logs_def)
  have ne1: "lone_batch \<noteq> []" and len1: "length lone_batch = 1" by (simp_all add: lone_batch_def)
  have len: "int (length unsorted_logs) = 3" by (simp add: unsorted_logs_def)
  have comps: "component ` set unsorted_logs = {''dfs.DataNode'', ''dfs.FSNamesystem''}"
    by (simp add: unsorted_logs_def example_log_def insert_commute)
  from create_incident_fields [OF ne unsorted_parse, of 1 "''blk_A''"] obtain inc
    where run: "create_incident iso_seconds 1 ''blk_A'' unsorted_logs = Inr inc"
      and st: "start_time inc = Min (set [63361785780000000, 63361785600000000, 63361785780000000])"
      and en: "end_time inc = Max (set [63361785780000000, 63361785600000000, 63361785780000000])"
      and du: "duration_seconds inc = real_of_int (end_time inc - start_time inc) / 1000000"
      and nl: "num_logs inc = int (length unsorted_logs)"
      and co: "components inc = component ` set unsorted_logs"
    by (elim exE conjE) (rule that; assumption)
  from st have st': "start_time inc = 63361785600000000" by simp
  from en have en': "end_time inc = 63361785780000000" by simp
  from du have du': "duration_seconds inc = 180" unfolding st' en' by simp
  from nl len have nl': "num_logs inc = 3" by simp
  from co comps have co': "components inc = {''dfs.DataNode'', ''dfs.FSNamesystem''}" by simp
  have a: "\<exists>inc. create_incident iso_seconds 1 ''blk_A'' unsorted_logs = Inr inc
         \<and> start_time inc = 63361785600000000 \<and> end_time inc = 63361785780000000
         \<and> duration_seconds inc = 180 \<and> num_logs inc = 3
         \<and> components inc = {''dfs.DataNode'', ''dfs.FSNamesystem''}"
    by (intro exI [of _ inc] conjI) (rule run st' en' du' nl' co')+
  from create_incident_fields [OF ne1 lone_parse, of 1 "''blk_A''"] obtain inc1
    where run1: "create_incident iso_seconds 1 ''blk_A'' lone_batch = Inr inc1"
      and du1: "length lone_batch = 1 \<longrightarrow> duration_seconds inc1 = 0"
      and nl1: "num_logs inc1 = int (length lone_batch)"
    by (elim exE conjE) (rule that; assumption)
  from du1 len1 have du1': "duration_seconds inc1 = 0" by simp
  from nl1 len1 have nl1': "num_logs inc1 = 1" by simp
  have b: "\<exists>inc. create_incident iso_seconds 1 ''blk_A'' lone_batch = Inr inc
         \<and> duration_seconds inc = 0 \<and> num_logs inc = 1"
    by (intro exI [of _ inc1] conjI) (rule run1 du1' nl1')+
  show ?thesis
    by (intro conjI) (rule ne unsorted_parse a ne1 lone_parse b)+
qed

text \<open>
  C9. Building an incident from an empty record sequence raises: \<^verbatim>\<open>min\<close> of the empty
  list of timestamps is a \<^verbatim>\<open>ValueError\<close>, whatever the id, the key and the timestamp
  parser are, and no incident is returned.
\<close>

theorem create_incident_empty_fails:
  "create_incident fromiso iid bid [] = Inl ValueError"
  by (simp add: create_incident_def parse_all_def)

text \<open>
  C10. The aggregator reports the level of the first member, in the order the cluster
  is given, whose priority is the greatest among the members. So when every member
  has priority 0 the level of the first member is reported, be it in the scale or not.
\<close>

theorem severity_first_at_max:
  assumes "lgs \<noteq> []" and "parse_all fromiso lgs = Some tss"
  shows "\<exists>inc. create_incident fromiso iid bid lgs = Inr inc
           \<and> List.find (\<lambda>l. priority l = Max (priority ` level ` set lgs)) (map level lgs)
               = Some (severity inc)
           \<and> ((\<forall>r\<in>set lgs. priority (level r) = 0) \<longrightarrow> severity inc = level (hd lgs))"
proof -
  from create_incident_ok [OF assms, of iid bid] obtain sev inc
    where sev: "py_max_key priority (map level lgs) = Inr sev"
      and inc: "create_incident fromiso iid bid lgs = Inr inc"
      and sev_inc: "severity inc = sev" by auto
  from py_max_key_split [OF sev] obtain ys zs
    where split: "map level lgs = ys @ sev # zs"
      and before: "\<forall>y\<in>set ys. priority y < priority sev"
      and after: "\<forall>z\<in>set zs. priority z \<le> priority sev" by blast
  have set_eq: "level ` set lgs = set (ys @ sev # zs)"
    using split by (metis set_map)
  have mx: "Max (priority ` level ` set lgs) = priority sev"
    unfolding set_eq by (rule split_Max [OF before after])
  have "List.find (\<lambda>l. priority l = priority sev) (ys @ sev # zs) = Some sev"
    using before by (intro find_first_split) auto
  then have first: "List.find (\<lambda>l. priority l = Max (priority ` level ` set lgs)) (map level lgs)
               = Some sev"
    unfolding mx split .
  have zero: "sev = level (hd lgs)" if "\<forall>r\<in>set lgs. priority (level r) = 0"
  proof -
    have "ys = []"
    proof (cases ys)
      case (Cons y ys')
      then have "y \<in> level ` set lgs" unfolding set_eq by simp
      with that have "priority y = 0" by auto
      moreover have "sev \<in> level ` set lgs" unfolding set_eq by simp
      with that have "priority sev = 0" by auto
      ultimately show ?thesis using before Cons by simp
    qed simp
    with split assms(1) show ?thesis by (cases lgs) auto
  qed
  show ?thesis using inc sev_inc first zero by blast
qed

text \<open>
  The statement at the levels NOTICE, DEBUG, NOTICE: the severity is NOTICE.
\<close>

theorem severity_first_at_max_witness:
  "notice_logs \<noteq> []
   \<and> parse_all iso_seconds notice_logs
       = Some [63361785600000000, 63361785600000000, 63361785780000000]
   \<and> map level notice_logs = [''NOTICE'', ''DEBUG'', ''NOTICE'']
   \<and> (\<exists>inc. create_incident iso_seconds 1 ''blk_A'' notice_logs = Inr inc
         \<and> severity inc = ''NOTICE'')"
proof -
  have ne: "notice_logs \<noteq> []" by (simp add: notice_logs_def)
  have lv: "map level notice_logs = [''NOTICE'', ''DEBUG'', ''NOTICE'']"
    by (simp add: notice_logs_def example_log_def)
  have lvs: "level ` set notice_logs = {''NOTICE'', ''DEBUG''}"
    by (simp add: notice_logs_def example_log_def insert_commute)
  have mx: "Max (priority ` {''NOTICE'', ''DEBUG''}) = 0"
    by (simp add: priority_def level_priority_def)
  from severity_first_at_max [OF ne notice_parse, of 1 "''blk_A''"] obtain inc
    where run: "create_incident iso_seconds 1 ''blk_A'' notice_logs = Inr inc"
      and first: "List.find (\<lambda>l. priority l = Max (priority ` level ` set notice_logs))
                    (map level notice_logs) = Some (severity inc)"
    by (elim exE conjE) (rule that; assumption)
  from first have sev: "severity inc = ''NOTICE''"
    unfolding lvs mx lv by (simp add: priority_def level_priority_def)
  have ex: "\<exists>inc. create_incident iso_seconds 1 ''blk_A'' notice_logs = Inr inc
         \<and> severity inc = ''NOTICE''"
    by (intro exI [of _ inc] conjI) (rule run sev)+
  show ?thesis
    by (intro conjI) (rule ne notice_parse lv ex)+
qed

end
